theory Spec2Isabelle
  imports Complex_Main "HOL-Library.Multiset"
begin

section \<open>Python values shared by the embedding\<close>

text \<open>
  Exceptions of the Python source are values of the type \<open>error\<close>; a function that can
  raise returns \<open>error + 'a\<close>, with \<open>Inl\<close> for the exception that leaves it.
\<close>

datatype error =
    IndexError
  | ValueError
  | IOError
  | EOFError
  | UnpicklingError
  | PicklingError
  | TypeError
  | ZeroDivisionError
  | OtherError string

text \<open>Sequencing of computations that may raise: the first exception ends the run.\<close>

definition bind_err :: "error + 'a \<Rightarrow> ('a \<Rightarrow> error + 'b) \<Rightarrow> error + 'b" where
  "bind_err m f = (case m of Inl e \<Rightarrow> Inl e | Inr x \<Rightarrow> f x)"

fun map_err :: "('a \<Rightarrow> error + 'b) \<Rightarrow> 'a list \<Rightarrow> error + 'b list" where
  "map_err f [] = Inr []"
| "map_err f (x # xs) =
     (case f x of Inl e \<Rightarrow> Inl e
      | Inr y \<Rightarrow> (case map_err f xs of Inl e \<Rightarrow> Inl e | Inr ys \<Rightarrow> Inr (y # ys)))"

text \<open>
  Python indexing \<open>xs[i]\<close> of a list or of a one-dimensional array: a negative index counts
  from the end, an index outside \<open>-len .. len - 1\<close> raises \<open>IndexError\<close>.
\<close>

definition py_get :: "'a list \<Rightarrow> int \<Rightarrow> error + 'a" where
  "py_get xs i =
     (if 0 \<le> i \<and> i < int (length xs) then Inr (xs ! nat i)
      else if - int (length xs) \<le> i \<and> i < 0 then Inr (xs ! nat (int (length xs) + i))
      else Inl IndexError)"

text \<open>
  The same read in two parts, for the proofs: \<open>in_range\<close> says that \<open>xs[i]\<close> does not
  raise, \<open>py_at\<close> is the element it then returns.
\<close>

definition in_range :: "'a list \<Rightarrow> int \<Rightarrow> bool" where
  "in_range xs i \<longleftrightarrow> - int (length xs) \<le> i \<and> i < int (length xs)"

definition py_at :: "'a list \<Rightarrow> int \<Rightarrow> 'a" where
  "py_at xs i = (if 0 \<le> i then xs ! nat i else xs ! nat (int (length xs) + i))"

text \<open>
  The position that the index \<open>i\<close> names in a list of length \<open>n\<close>, for the proofs about
  index arrays.
\<close>

definition py_pos :: "nat \<Rightarrow> int \<Rightarrow> nat" where
  "py_pos n i = nat (if 0 \<le> i then i else int n + i)"

text \<open>\<open>list.index(x)\<close>: the position of the first occurrence, \<open>ValueError\<close> when there is none.\<close>

fun py_index :: "'a list \<Rightarrow> 'a \<Rightarrow> error + nat" where
  "py_index [] x = Inl ValueError"
| "py_index (y # ys) x =
     (if y = x then Inr 0
      else (case py_index ys x of Inl e \<Rightarrow> Inl e | Inr i \<Rightarrow> Inr (Suc i)))"

text \<open>The substring test \<open>sub in s\<close> on Python strings.\<close>

fun starts_with :: "string \<Rightarrow> string \<Rightarrow> bool" where
  "starts_with [] s = True"
| "starts_with (c # cs) [] = False"
| "starts_with (c # cs) (d # ds) = (c = d \<and> starts_with cs ds)"

fun str_contains :: "string \<Rightarrow> string \<Rightarrow> bool" where
  "str_contains sub [] = (sub = [])"
| "str_contains sub (c # cs) = (starts_with sub (c # cs) \<or> str_contains sub cs)"

section \<open>Submissions and their folds (model.py)\<close>

text \<open>
  \<open>submission_states\<close> is the database enumeration of model.py; a column of that type holds
  one of these nine strings, which \<open>state_name\<close> gives back.
\<close>

datatype submission_state =
    New | Checked | Checking_error | Trained | Training_error
  | Validated | Validating_error | Tested | Testing_error

fun state_name :: "submission_state \<Rightarrow> string" where
  "state_name New = ''new''"
| "state_name Checked = ''checked''"
| "state_name Checking_error = ''checking_error''"
| "state_name Trained = ''trained''"
| "state_name Training_error = ''training_error''"
| "state_name Validated = ''validated''"
| "state_name Validating_error = ''validating_error''"
| "state_name Tested = ''tested''"
| "state_name Testing_error = ''testing_error''"

record cv_fold =
  train_is :: "int list"
  test_is :: "int list"

text \<open>
  \<open>SubmissionOnCVFold\<close>: one submission on one fold. Predictions are values of a type
  \<open>'p\<close>, scores of a type \<open>'s\<close>, times are numbers; the two prediction columns may hold
  \<open>None\<close>. The fields \<open>state\<close>, \<open>error_msg\<close> and \<open>contributivity\<close> carry the prefix
  \<open>fold_\<close> here, since \<open>Submission\<close> has fields of the same names.
\<close>

record ('p, 's) submission_on_cv_fold =
  cv_fold :: cv_fold
  fold_contributivity :: rat
  best :: bool
  full_train_predictions :: "'p option"
  test_predictions :: "'p option"
  train_time :: rat
  valid_time :: rat
  test_time :: rat
  train_score :: 's
  valid_score :: 's
  test_score :: 's
  fold_state :: submission_state
  fold_error_msg :: string

text \<open>\<open>DetachedSubmissionOnCVFold\<close>: the copy that a worker process fills and hands back.\<close>

record 'p detached_submission_on_cv_fold =
  d_train_is :: "int list"
  d_test_is :: "int list"
  d_full_train_predictions :: "'p option"
  d_test_predictions :: "'p option"
  d_state :: submission_state
  d_name :: string
  d_module :: string
  d_error_msg :: string
  d_train_time :: rat
  d_valid_time :: rat
  d_test_time :: rat

record ('p, 's) submission =
  name :: string
  training_timestamp :: "nat option"
  contributivity :: rat
  state :: submission_state
  error_msg :: string
  is_valid :: bool
  is_to_ensemble :: bool
  on_cv_folds :: "('p, 's) submission_on_cv_fold list"

subsection \<open>The error predicates\<close>

text \<open>
  \<open>is_error\<close> is the property of \<open>SubmissionOnCVFold\<close>, \<open>submission_is_error\<close> the one of
  \<open>Submission\<close>; both compare the state with the same four names, in the same order.
\<close>

definition is_error_state :: "submission_state \<Rightarrow> bool" where
  "is_error_state st \<longleftrightarrow>
     st = Training_error \<or> st = Checking_error \<or> st = Validating_error \<or> st = Testing_error"

definition is_error :: "('p, 's) submission_on_cv_fold \<Rightarrow> bool" where
  "is_error f \<longleftrightarrow> is_error_state (fold_state f)"

definition submission_is_error :: "('p, 's) submission \<Rightarrow> bool" where
  "submission_is_error s \<longleftrightarrow> is_error_state (state s)"

subsection \<open>Submission.set_state_after_training\<close>

text \<open>
  The three branches of an error state have the same body, written once as
  \<open>copy_error_of\<close>: set the state, find \<open>states.index(state)\<close>, copy the message of that
  fold. \<open>now\<close> is the value \<open>datetime.utcnow()\<close> returns. Both \<open>states.index\<close> and
  \<open>on_cv_folds[i]\<close> can raise in Python, so the model returns \<open>error + submission\<close>.
\<close>

definition copy_error_of ::
  "submission_state \<Rightarrow> ('p, 's) submission \<Rightarrow> error + ('p, 's) submission" where
  "copy_error_of st s =
     (let s' = s\<lparr>state := st\<rparr>
      in bind_err (py_index (map fold_state (on_cv_folds s')) st) (\<lambda>i.
         bind_err (py_get (on_cv_folds s') (int i)) (\<lambda>f.
         Inr (s'\<lparr>error_msg := fold_error_msg f\<rparr>))))"

definition set_state_after_training ::
  "nat \<Rightarrow> ('p, 's) submission \<Rightarrow> error + ('p, 's) submission" where
  "set_state_after_training now s =
     (let s0 = s\<lparr>training_timestamp := Some now\<rparr>;
          states = map fold_state (on_cv_folds s0)
      in bind_err
          (if list_all (\<lambda>st. st \<in> set [Tested]) states then Inr (s0\<lparr>state := Tested\<rparr>)
           else if list_all (\<lambda>st. st \<in> set [Tested, Validated]) states
             then Inr (s0\<lparr>state := Validated\<rparr>)
           else if list_all (\<lambda>st. st \<in> set [Tested, Validated, Trained]) states
             then Inr (s0\<lparr>state := Trained\<rparr>)
           else if list_ex (\<lambda>st. st = Training_error) states
             then copy_error_of Training_error s0
           else if list_ex (\<lambda>st. st = Validating_error) states
             then copy_error_of Validating_error s0
           else if list_ex (\<lambda>st. st = Testing_error) states
             then copy_error_of Testing_error s0
           else Inr s0)
          (\<lambda>s1. if \<not> str_contains ''error'' (state_name (state s1))
                then Inr (s1\<lparr>error_msg := ''''\<rparr>) else Inr s1))"

subsection \<open>SubmissionOnCVFold.update\<close>

text \<open>
  The score function and the two ground truths come from the configured \<open>specific\<close> module
  and from \<open>generic\<close>; they are parameters here. \<open>score\<close> takes the ground truth, the
  predictions and an optional index subset, and may raise. \<open>db.session.commit()\<close> only
  persists the object and has no counterpart in the model. When a score computation raises,
  the exception leaves \<open>update\<close>.
\<close>

definition compute_train_scores ::
  "('p \<Rightarrow> 'p option \<Rightarrow> int list option \<Rightarrow> error + 's) \<Rightarrow> 'p \<Rightarrow>
   ('p, 's) submission_on_cv_fold \<Rightarrow> error + ('p, 's) submission_on_cv_fold" where
  "compute_train_scores score true_train f =
     bind_err (score true_train (full_train_predictions f) (Some (train_is (cv_fold f))))
       (\<lambda>sc. Inr (f\<lparr>train_score := sc\<rparr>))"

definition compute_valid_scores ::
  "('p \<Rightarrow> 'p option \<Rightarrow> int list option \<Rightarrow> error + 's) \<Rightarrow> 'p \<Rightarrow>
   ('p, 's) submission_on_cv_fold \<Rightarrow> error + ('p, 's) submission_on_cv_fold" where
  "compute_valid_scores score true_train f =
     bind_err (score true_train (full_train_predictions f) (Some (test_is (cv_fold f))))
       (\<lambda>sc. Inr (f\<lparr>valid_score := sc\<rparr>))"

definition compute_test_scores ::
  "('p \<Rightarrow> 'p option \<Rightarrow> int list option \<Rightarrow> error + 's) \<Rightarrow> 'p \<Rightarrow>
   ('p, 's) submission_on_cv_fold \<Rightarrow> error + ('p, 's) submission_on_cv_fold" where
  "compute_test_scores score true_test f =
     bind_err (score true_test (test_predictions f) None)
       (\<lambda>sc. Inr (f\<lparr>test_score := sc\<rparr>))"

definition update ::
  "('p \<Rightarrow> 'p option \<Rightarrow> int list option \<Rightarrow> error + 's) \<Rightarrow> 'p \<Rightarrow> 'p \<Rightarrow>
   ('p, 's) submission_on_cv_fold \<Rightarrow> 'p detached_submission_on_cv_fold \<Rightarrow>
   error + ('p, 's) submission_on_cv_fold" where
  "update score true_train true_test self d =
     (let f0 = self\<lparr>fold_state := d_state d\<rparr>
      in if is_error f0 then Inr (f0\<lparr>fold_error_msg := d_error_msg d\<rparr>)
         else
           (let f1 = (if fold_state f0 \<in> set [Trained, Validated, Tested]
                      then f0\<lparr>train_time := d_train_time d\<rparr> else f0)
            in bind_err
                 (if fold_state f1 \<in> set [Validated, Tested]
                  then bind_err
                         (compute_train_scores score true_train
                            (f1\<lparr>valid_time := d_valid_time d,
                                full_train_predictions := d_full_train_predictions d\<rparr>))
                         (compute_valid_scores score true_train)
                  else Inr f1)
                 (\<lambda>f2. if fold_state f2 \<in> set [Tested]
                        then compute_test_scores score true_test
                               (f2\<lparr>test_time := d_test_time d,
                                   test_predictions := d_test_predictions d\<rparr>)
                        else Inr f2)))"

section \<open>Combining predictions (model.py)\<close>

text \<open>
  A floating-point number is modelled as an exact rational or as NaN (\<open>None\<close>): rounding
  and the infinities have no counterpart here. An array of such numbers is given by the
  list of its elements in storage order, so that an element-wise operation on arrays of one
  shape is the operation on the positions of the lists; a zero-dimensional result (numpy
  returns one when it reduces an empty array) is a \<open>Scalar\<close>.
\<close>

type_synonym val = "rat option"

datatype ndarray = Scalar val | Array "val list"

text \<open>
  \<open>np.nanmean\<close> of the values at one position: the mean of those that are not NaN, and NaN
  when there is none.
\<close>

definition nanmean :: "val list \<Rightarrow> val" where
  "nanmean vs =
     (let xs = map the (filter (\<lambda>v. v \<noteq> None) vs)
      in if xs = [] then None else Some (sum_list xs / of_nat (length xs)))"

text \<open>
  \<open>np.nanmean(np.array(rows), axis=0)\<close>. Rows of different lengths do not form a numeric
  array and numpy does not average them; this is the error \<open>OtherError ''ragged''\<close>. Of no
  row at all, the mean is the scalar NaN.
\<close>

definition nanmean_axis0 :: "val list list \<Rightarrow> error + ndarray" where
  "nanmean_axis0 rows =
     (case rows of
        [] \<Rightarrow> Inr (Scalar None)
      | r # rs \<Rightarrow>
          if list_all (\<lambda>r'. length r' = length r) rs
          then Inr (Array (map (\<lambda>j. nanmean (map (\<lambda>r'. r' ! j) rows)) [0..<length r]))
          else Inl (OtherError ''ragged''))"

text \<open>
  \<open>combine_predictions_list\<close>. The class \<open>Predictions\<close> of the configured \<open>specific\<close> module
  is not part of the sources at hand: its constructor \<open>Predictions(y_pred=...)\<close> and its view
  \<open>y_pred_comb\<close> are the parameters \<open>mk\<close> and \<open>y_pred_comb\<close>.
\<close>

definition combine_predictions_list ::
  "(ndarray \<Rightarrow> 'p) \<Rightarrow> ('p \<Rightarrow> val list) \<Rightarrow> 'p list \<Rightarrow> int list option \<Rightarrow> error + 'p" where
  "combine_predictions_list mk y_pred_comb predictions_list index_list =
     (let index_list' = (case index_list of
                           None \<Rightarrow> map int [0..<length predictions_list]
                         | Some l \<Rightarrow> l)
      in bind_err (map_err (\<lambda>i. bind_err (py_get predictions_list i)
                                   (\<lambda>p. Inr (y_pred_comb p))) index_list')
           (\<lambda>y_comb_list. bind_err (nanmean_axis0 y_comb_list)
           (\<lambda>y_comb. Inr (mk y_comb))))"

section \<open>Calibration (generic.py)\<close>

text \<open>
  A two-dimensional array carries its number of columns (\<open>shape[1]\<close>) and its rows; an
  array built by numpy has rows of that one length. The quotient of two numbers is NaN
  when the divisor is zero: the calibrators' outputs lie between 0 and 1, so a sum that is
  zero divides zeros.
\<close>

record array2 =
  n_cols :: nat
  cells :: "val list list"

definition n_rows :: "array2 \<Rightarrow> nat" where
  "n_rows X = length (cells X)"

definition column :: "array2 \<Rightarrow> nat \<Rightarrow> val list" where
  "column X j = map (\<lambda>r. r ! j) (cells X)"

definition np_sum :: "val list \<Rightarrow> val" where
  "np_sum vs = (if None \<in> set vs then None else Some (sum_list (map the vs)))"

definition np_mean :: "val list \<Rightarrow> val" where
  "np_mean vs =
     (if None \<in> set vs \<or> vs = [] then None
      else Some (sum_list (map the vs) / of_nat (length vs)))"

fun np_divide :: "val \<Rightarrow> val \<Rightarrow> val" where
  "np_divide (Some a) (Some b) = (if b = 0 then None else Some (a / b))"
| "np_divide _ _ = None"

text \<open>\<open>X[idx]\<close> with an index array: the rows at those indices, in that order.\<close>

definition take_rows :: "array2 \<Rightarrow> int list \<Rightarrow> error + array2" where
  "take_rows X idx = bind_err (map_err (py_get (cells X)) idx) (\<lambda>rs. Inr (X\<lparr>cells := rs\<rparr>))"

definition take_items :: "'a list \<Rightarrow> int list \<Rightarrow> error + 'a list" where
  "take_items y idx = map_err (py_get y) idx"

text \<open>
  \<open>a[idx] = rs\<close> with an index array: row \<open>idx[k]\<close> becomes \<open>rs[k]\<close>, a later occurrence
  of an index overwriting an earlier one; an index out of range raises \<open>IndexError\<close>, a
  different number of rows \<open>ValueError\<close>.
\<close>

fun set_rows :: "'a list \<Rightarrow> int list \<Rightarrow> 'a list \<Rightarrow> error + 'a list" where
  "set_rows a [] [] = Inr a"
| "set_rows a (i # idx) (r # rs) =
     (if in_range a i
      then set_rows (a[nat (if 0 \<le> i then i else int (length a) + i) := r]) idx rs
      else Inl IndexError)"
| "set_rows a [] (r # rs) = Inl ValueError"
| "set_rows a (i # idx) [] = Inl ValueError"

subsection \<open>IsotonicCalibrator\<close>

text \<open>
  \<open>IsotonicRegression\<close> is scikit-learn's: fitting it on a column and a 0/1 indicator and
  applying the fitted object to a column are the parameters \<open>iso_fit\<close> and \<open>iso_predict\<close>,
  either of which may raise. \<open>fit\<close> returns the list \<open>self.calibrators\<close>. The mask
  \<open>y == labels[class_index]\<close> indexes an array of \<open>X.shape[0]\<close> zeros, which raises when
  the lengths differ.
\<close>

definition fit ::
  "(val list \<Rightarrow> rat list \<Rightarrow> error + 'c) \<Rightarrow> array2 \<Rightarrow> 'l::linorder list \<Rightarrow> error + 'c list" where
  "fit iso_fit X y =
     (let labels = sort (remdups y)
      in map_err (\<lambda>class_index.
           bind_err (py_get labels (int class_index)) (\<lambda>label.
             if length y \<noteq> n_rows X then Inl IndexError
             else iso_fit (column X class_index) (map (\<lambda>yi. if yi = label then 1 else 0) y)))
           [0..<n_cols X])"

text \<open>
  \<open>predict\<close>: one calibrated column per class, each divided by the sum over the classes,
  transposed back. The columns must have one length to form an array.
\<close>

definition predict ::
  "('c \<Rightarrow> val list \<Rightarrow> error + val list) \<Rightarrow> 'c list \<Rightarrow> array2 \<Rightarrow> error + array2" where
  "predict iso_predict calibrators X =
     bind_err
       (map_err (\<lambda>class_index.
          bind_err (py_get calibrators (int class_index))
            (\<lambda>c. iso_predict c (column X class_index)))
          [0..<n_cols X])
       (\<lambda>X_calibrated_transpose.
          if \<not> list_all (\<lambda>col. length col = n_rows X) X_calibrated_transpose
          then Inl (OtherError ''ragged'')
          else
            (let sum_rows = map (\<lambda>i. np_sum (map (\<lambda>col. col ! i) X_calibrated_transpose))
                              [0..<n_rows X];
                 X_calibrated_normalized_transpose =
                   map (\<lambda>col. map2 np_divide col sum_rows) X_calibrated_transpose
             in Inr (X\<lparr>cells := map (\<lambda>i. map (\<lambda>col. col ! i)
                                     X_calibrated_normalized_transpose) [0..<n_rows X]\<rparr>)))"

definition calibrate_test ::
  "(val list \<Rightarrow> rat list \<Rightarrow> error + 'c) \<Rightarrow> ('c \<Rightarrow> val list \<Rightarrow> error + val list) \<Rightarrow>
   array2 \<Rightarrow> 'l::linorder list \<Rightarrow> array2 \<Rightarrow> error + array2" where
  "calibrate_test iso_fit iso_predict y_probas_array ground_truth test_y_probas_array =
     bind_err (fit iso_fit y_probas_array ground_truth)
       (\<lambda>calibrators. predict iso_predict calibrators test_y_probas_array)"

subsection \<open>calibrate\<close>

text \<open>
  \<open>StratifiedShuffleSplit\<close> is scikit-learn's: \<open>split\<close> gives the one pair of index
  arrays it yields for the ground truth, or raises. \<open>np.empty\<close> returns an array of
  unspecified contents: \<open>garbage i j\<close> is the value at row \<open>i\<close>, column \<open>j\<close>.
  \<open>calibrate_fold\<close> is the body of the loop over the two pairs of folds.
\<close>

fun calibrate_fold ::
  "(val list \<Rightarrow> rat list \<Rightarrow> error + 'c) \<Rightarrow> ('c \<Rightarrow> val list \<Rightarrow> error + val list) \<Rightarrow>
   array2 \<Rightarrow> 'l::linorder list \<Rightarrow> int list \<times> int list \<Rightarrow> array2 \<Rightarrow> error + array2" where
  "calibrate_fold iso_fit iso_predict y_probas_array ground_truth
       (fold_train_is, fold_test_is) calibrated_proba_array =
     bind_err (take_rows y_probas_array fold_train_is) (\<lambda>X_train.
     bind_err (take_items ground_truth fold_train_is) (\<lambda>y_train.
     bind_err (fit iso_fit X_train y_train) (\<lambda>calibrators.
     bind_err (take_rows y_probas_array fold_test_is) (\<lambda>X_test.
     bind_err (predict iso_predict calibrators X_test) (\<lambda>p.
     bind_err (set_rows (cells calibrated_proba_array) fold_test_is (cells p)) (\<lambda>rs.
     Inr (calibrated_proba_array\<lparr>cells := rs\<rparr>)))))))"

definition calibrate ::
  "('l::linorder list \<Rightarrow> error + int list \<times> int list) \<Rightarrow>
   (val list \<Rightarrow> rat list \<Rightarrow> error + 'c) \<Rightarrow> ('c \<Rightarrow> val list \<Rightarrow> error + val list) \<Rightarrow>
   (nat \<Rightarrow> nat \<Rightarrow> val) \<Rightarrow> array2 \<Rightarrow> 'l list \<Rightarrow> error + array2" where
  "calibrate split iso_fit iso_predict garbage y_probas_array ground_truth =
     bind_err (split ground_truth) (\<lambda>(fold1_is, fold2_is).
       let calibrated_proba_array =
             \<lparr>n_cols = n_cols y_probas_array,
              cells = map (\<lambda>i. map (garbage i) [0..<n_cols y_probas_array])
                        [0..<n_rows y_probas_array]\<rparr>
       in bind_err (calibrate_fold iso_fit iso_predict y_probas_array ground_truth
                      (fold1_is, fold2_is) calibrated_proba_array)
            (calibrate_fold iso_fit iso_predict y_probas_array ground_truth
               (fold2_is, fold1_is)))"

section \<open>The greedy ensemble (generic.py, model.py)\<close>

subsection \<open>Combination by mean probabilities (generic.py)\<close>

text \<open>
  In generic.py the predictions of a model are a pair: the predicted labels and the array
  of class probabilities. \<open>np.argmax\<close> returns the first position of the largest value,
  of a NaN when there is one, and raises on an empty row; \<open>labels\<close> is the list
  \<open>specific.labels\<close>, a parameter.
\<close>

type_synonym 'l predictions = "'l list \<times> array2"

fun argmax_from :: "'a::linorder \<Rightarrow> nat \<Rightarrow> nat \<Rightarrow> 'a list \<Rightarrow> nat" where
  "argmax_from m k i [] = k"
| "argmax_from m k i (x # xs) =
     (if m < x then argmax_from x i (Suc i) xs else argmax_from m k (Suc i) xs)"

definition argmax :: "'a::linorder list \<Rightarrow> error + nat" where
  "argmax xs = (case xs of [] \<Rightarrow> Inl ValueError | x # xs' \<Rightarrow> Inr (argmax_from x 0 1 xs'))"

definition np_argmax :: "val list \<Rightarrow> error + nat" where
  "np_argmax row =
     (if row = [] then Inl ValueError
      else if None \<in> set row then py_index row None
      else argmax (map the row))"

definition get_y_pred_array :: "'l list \<Rightarrow> array2 \<Rightarrow> error + 'l list" where
  "get_y_pred_array labels y_probas_array =
     map_err (\<lambda>y_probas. bind_err (np_argmax y_probas) (\<lambda>k. py_get labels (int k)))
       (cells y_probas_array)"

text \<open>
  \<open>np.array(arrays).mean(axis=0)\<close> of at least one array: the mean of the arrays position
  by position, NaN where one of them has NaN. Arrays of different shapes do not form a
  numeric array (\<open>OtherError ''ragged''\<close>).
\<close>

definition mean_axis0 :: "array2 list \<Rightarrow> error + array2" where
  "mean_axis0 arrays =
     (case arrays of
        [] \<Rightarrow> Inl TypeError
      | a # as \<Rightarrow>
          if list_all (\<lambda>b. n_cols b = n_cols a \<and> map length (cells b) = map length (cells a)) as
          then Inr (a\<lparr>cells :=
                 map (\<lambda>i. map (\<lambda>j. np_mean (map (\<lambda>b. cells b ! i ! j) arrays))
                            [0..<length (cells a ! i)])
                   [0..<n_rows a]\<rparr>)
          else Inl (OtherError ''ragged''))"

text \<open>
  \<open>combine_models_using_probas\<close>. An empty \<open>indexes\<close> stands for the whole list. When
  the list of models is empty too, the mean is a scalar NaN, over which
  \<open>get_y_pred_array\<close> cannot iterate: the \<open>TypeError\<close> of \<open>mean_axis0 []\<close>.
\<close>

definition combine_models_using_probas ::
  "'l list \<Rightarrow> 'l predictions list \<Rightarrow> int list \<Rightarrow> error + 'l predictions" where
  "combine_models_using_probas labels predictions_list indexes =
     (let indexes' = (if length indexes = 0 then map int [0..<length predictions_list]
                      else indexes)
      in bind_err (map_err (\<lambda>index. bind_err (py_get predictions_list index)
                                       (\<lambda>(y_pred_array, y_probas_array). Inr y_probas_array))
                     indexes')
           (\<lambda>y_probas_arrays. bind_err (mean_axis0 y_probas_arrays)
           (\<lambda>combined_y_probas_array.
              bind_err (get_y_pred_array labels combined_y_probas_array)
           (\<lambda>combined_y_pred_array. Inr (combined_y_pred_array, combined_y_probas_array)))))"

subsection \<open>One round: best_combine (generic.py)\<close>

text \<open>
  \<open>specific.score\<close> is a parameter: it takes the ground truth and the predictions and
  returns a value of a linear order in which \<open>x > y\<close> reads "x is better than y". The state
  of the loop is the pair of \<open>best_predictions\<close> and \<open>best_index\<close>.
\<close>

fun best_combine_loop ::
  "'l list \<Rightarrow> ('l list \<Rightarrow> 'l predictions \<Rightarrow> 's::linorder) \<Rightarrow> 'l predictions list \<Rightarrow> 'l list \<Rightarrow>
   int list \<Rightarrow> nat list \<Rightarrow> 'l predictions \<times> int \<Rightarrow> error + 'l predictions \<times> int" where
  "best_combine_loop labels score predictions_list ground_truth best_indexes []
       (best_predictions, best_index) = Inr (best_predictions, best_index)"
| "best_combine_loop labels score predictions_list ground_truth best_indexes (i # rest)
       (best_predictions, best_index) =
     bind_err (combine_models_using_probas labels predictions_list (best_indexes @ [int i]))
       (\<lambda>combined_predictions.
          if score ground_truth combined_predictions > score ground_truth best_predictions
          then best_combine_loop labels score predictions_list ground_truth best_indexes rest
                 (combined_predictions, int i)
          else best_combine_loop labels score predictions_list ground_truth best_indexes rest
                 (best_predictions, best_index))"

definition best_combine ::
  "'l list \<Rightarrow> ('l list \<Rightarrow> 'l predictions \<Rightarrow> 's::linorder) \<Rightarrow> 'l predictions list \<Rightarrow> 'l list \<Rightarrow>
   int list \<Rightarrow> error + int list" where
  "best_combine labels score predictions_list ground_truth best_indexes =
     bind_err (combine_models_using_probas labels predictions_list best_indexes)
       (\<lambda>best_predictions.
     bind_err (best_combine_loop labels score predictions_list ground_truth best_indexes
                 [0..<length predictions_list] (best_predictions, - 1))
       (\<lambda>(best_predictions, best_index).
          if best_index > - 1 then Inr (best_indexes @ [best_index]) else Inr best_indexes))"

subsection \<open>The outer loop: get_best_index_list (generic.py)\<close>

text \<open>
  The \<open>while improvement\<close> loop has no bound of its own, so it is a partial function:
  \<open>None\<close> is the run that never leaves the loop, \<open>Some (Inl e)\<close> the run that an exception
  ends, \<open>Some (Inr l)\<close> the run that returns the index list \<open>l\<close>.
\<close>

partial_function (option) greedy_while ::
  "'l list \<Rightarrow> ('l list \<Rightarrow> 'l predictions \<Rightarrow> 's::linorder) \<Rightarrow> 'l predictions list \<Rightarrow> 'l list \<Rightarrow>
   int list \<Rightarrow> (error + int list) option" where
  "greedy_while labels score predictions_list ground_truth best_index_list =
     (case best_combine labels score predictions_list ground_truth best_index_list of
        Inl e \<Rightarrow> Some (Inl e)
      | Inr new_list \<Rightarrow>
          if length new_list \<noteq> length best_index_list
          then greedy_while labels score predictions_list ground_truth new_list
          else Some (Inr new_list))"

text \<open>
  \<open>greedy_selection\<close> is \<open>get_best_index_list\<close> from the computation of \<open>valid_scores\<close> on:
  the start from the best single model, the loop, and the three values returned.
  \<open>np.max\<close> of the scores is the score at \<open>np.argmax\<close>.
\<close>

definition greedy_selection ::
  "'l list \<Rightarrow> ('l list \<Rightarrow> 'l predictions \<Rightarrow> 's::linorder) \<Rightarrow> 'l predictions list \<Rightarrow> 'l list \<Rightarrow>
   (error + int list \<times> 's \<times> 's) option" where
  "greedy_selection labels score predictions_list ground_truth =
     (let valid_scores = map (score ground_truth) predictions_list
      in case argmax valid_scores of
           Inl e \<Rightarrow> Some (Inl e)
         | Inr k \<Rightarrow>
            (case greedy_while labels score predictions_list ground_truth [int k] of
               None \<Rightarrow> None
             | Some (Inl e) \<Rightarrow> Some (Inl e)
             | Some (Inr best_index_list) \<Rightarrow>
                 (let best_score = valid_scores ! k
                  in case combine_models_using_probas labels predictions_list best_index_list of
                       Inl e \<Rightarrow> Some (Inl e)
                     | Inr combined_predictions \<Rightarrow>
                         Some (Inr (best_index_list, best_score,
                                    score ground_truth combined_predictions)))))"

text \<open>
  \<open>get_best_index_list\<close> itself: the ground truth and the uncalibrated predictions are
  what the two files hold; each model's probabilities are calibrated and its labels
  recomputed before the selection.
\<close>

definition get_best_index_list ::
  "'l::linorder list \<Rightarrow> ('l list \<Rightarrow> 'l predictions \<Rightarrow> 's::linorder) \<Rightarrow>
   ('l list \<Rightarrow> error + int list \<times> int list) \<Rightarrow>
   (val list \<Rightarrow> rat list \<Rightarrow> error + 'c) \<Rightarrow> ('c \<Rightarrow> val list \<Rightarrow> error + val list) \<Rightarrow>
   (nat \<Rightarrow> nat \<Rightarrow> val) \<Rightarrow> 'l list \<Rightarrow> 'l predictions list \<Rightarrow>
   (error + int list \<times> 's \<times> 's) option" where
  "get_best_index_list labels score split iso_fit iso_predict garbage ground_truth
       uncalibrated_predictions_list =
     (case map_err (\<lambda>(y_pred_array, y_probas_array).
               bind_err (calibrate split iso_fit iso_predict garbage y_probas_array ground_truth)
                 (\<lambda>calibrated_y_probas_array.
               bind_err (get_y_pred_array labels calibrated_y_probas_array)
                 (\<lambda>calibrated_y_pred_array.
                    Inr (calibrated_y_pred_array, calibrated_y_probas_array))))
             uncalibrated_predictions_list of
        Inl e \<Rightarrow> Some (Inl e)
      | Inr predictions_list \<Rightarrow> greedy_selection labels score predictions_list ground_truth)"

subsection \<open>One round: get_next_best_single_fold (model.py)\<close>

text \<open>
  The round of model.py combines with \<open>combine_predictions_list\<close> and carries the best
  score along instead of recomputing it; the variable \<open>best_predictions\<close> is assigned in
  the loop and never read again, so the state of the loop is \<open>best_index\<close> and
  \<open>best_score\<close>. The score is a function of the ground truth and the predictions, to a
  linear order in which \<open>x > y\<close> reads "x is better than y".
\<close>

fun next_best_loop ::
  "(ndarray \<Rightarrow> 'p) \<Rightarrow> ('p \<Rightarrow> val list) \<Rightarrow> ('p \<Rightarrow> 'p \<Rightarrow> 's::linorder) \<Rightarrow> 'p list \<Rightarrow> 'p \<Rightarrow>
   int list \<Rightarrow> nat list \<Rightarrow> int \<times> 's \<Rightarrow> error + int \<times> 's" where
  "next_best_loop mk y_pred_comb score predictions_list true_predictions best_index_list []
       (best_index, best_score) = Inr (best_index, best_score)"
| "next_best_loop mk y_pred_comb score predictions_list true_predictions best_index_list
       (i # rest) (best_index, best_score) =
     bind_err (combine_predictions_list mk y_pred_comb predictions_list
                 (Some (best_index_list @ [int i])))
       (\<lambda>combined_predictions.
          let new_score = score true_predictions combined_predictions
          in if new_score > best_score
             then next_best_loop mk y_pred_comb score predictions_list true_predictions
                    best_index_list rest (int i, new_score)
             else next_best_loop mk y_pred_comb score predictions_list true_predictions
                    best_index_list rest (best_index, best_score))"

definition get_next_best_single_fold ::
  "(ndarray \<Rightarrow> 'p) \<Rightarrow> ('p \<Rightarrow> val list) \<Rightarrow> ('p \<Rightarrow> 'p \<Rightarrow> 's::linorder) \<Rightarrow> 'p list \<Rightarrow> 'p \<Rightarrow>
   int list \<Rightarrow> error + int list \<times> 's" where
  "get_next_best_single_fold mk y_pred_comb score predictions_list true_predictions
       best_index_list =
     bind_err (combine_predictions_list mk y_pred_comb predictions_list (Some best_index_list))
       (\<lambda>best_predictions.
     bind_err (next_best_loop mk y_pred_comb score predictions_list true_predictions
                 best_index_list [0..<length predictions_list]
                 (- 1, score true_predictions best_predictions))
       (\<lambda>(best_index, best_score).
          if best_index > - 1 then Inr (best_index_list @ [best_index], best_score)
          else Inr (best_index_list, best_score)))"

subsection \<open>The scan of one round, on its own\<close>

text \<open>
  Both rounds walk the indices \<open>0 .. N-1\<close> with the scores of the extended combinations
  and keep an index whenever its score is strictly better than the best so far. \<open>scan\<close>
  is that walk over a list of (index, score) pairs, used to state what the rounds return;
  \<open>rounds m\<close> is \<open>m\<close> rounds of \<open>best_combine\<close> in a row.
\<close>

fun scan :: "(nat \<times> 's::linorder) list \<Rightarrow> int \<times> 's \<Rightarrow> int \<times> 's" where
  "scan [] st = st"
| "scan ((i, s) # rest) (best_index, best_score) =
     (if s > best_score then scan rest (int i, s) else scan rest (best_index, best_score))"

fun rounds ::
  "'l list \<Rightarrow> ('l list \<Rightarrow> 'l predictions \<Rightarrow> 's::linorder) \<Rightarrow> 'l predictions list \<Rightarrow> 'l list \<Rightarrow>
   nat \<Rightarrow> int list \<Rightarrow> error + int list" where
  "rounds labels score predictions_list ground_truth 0 l = Inr l"
| "rounds labels score predictions_list ground_truth (Suc m) l =
     bind_err (rounds labels score predictions_list ground_truth m l)
       (best_combine labels score predictions_list ground_truth)"

text \<open>
  The lists of predictions on which \<open>combine_models_using_probas\<close> does not raise: every
  model has an array of \<open>nr\<close> rows and \<open>nc\<close> columns, with at least one column and a
  label for each.
\<close>

definition well_formed :: "'l list \<Rightarrow> 'l predictions list \<Rightarrow> nat \<Rightarrow> nat \<Rightarrow> bool" where
  "well_formed labels predictions_list nr nc \<longleftrightarrow>
     0 < nc \<and> nc \<le> length labels \<and>
     list_all (\<lambda>p. n_cols (snd p) = nc \<and> length (cells (snd p)) = nr \<and>
                    list_all (\<lambda>r. length r = nc) (cells (snd p))) predictions_list"

text \<open>
  What one pass of the loop assigns, as a value of its own for the statements below: the
  calibrator fitted on the rows \<open>fold_train_is\<close> of the array and on the labels at
  \<open>fold_train_is\<close>, applied to the rows \<open>fold_test_is\<close>.
\<close>

definition fold_output ::
  "(val list \<Rightarrow> rat list \<Rightarrow> error + 'c) \<Rightarrow> ('c \<Rightarrow> val list \<Rightarrow> error + val list) \<Rightarrow>
   array2 \<Rightarrow> 'l::linorder list \<Rightarrow> int list \<Rightarrow> int list \<Rightarrow> error + array2" where
  "fold_output iso_fit iso_predict y_probas_array ground_truth fold_train_is fold_test_is =
     bind_err (take_rows y_probas_array fold_train_is) (\<lambda>X_train.
     bind_err (take_items ground_truth fold_train_is) (\<lambda>y_train.
     bind_err (fit iso_fit X_train y_train) (\<lambda>calibrators.
     bind_err (take_rows y_probas_array fold_test_is) (\<lambda>X_test.
     predict iso_predict calibrators X_test))))"

section \<open>Testing on a fold (generic.py)\<close>

text \<open>
  The global \<open>data_sets\<close> and the files of one model directory. The files are kept by
  kind (the subdirectories \<open>model\<close>, \<open>train_time\<close>, \<open>test\<close>) and by the hash string of
  the fold in their names; \<open>init_py\<close> says whether \<open>__init__.py\<close> exists. A pickle file
  holds a value of a type \<open>'b\<close>. Creating the subdirectories has no counterpart here.
\<close>

record ('x, 'y) data_sets =
  X_train :: "'x list"
  y_train :: "'y list"
  X_test :: "'x list"
  y_test :: "'y list"

record ('b, 'o) model_dir =
  init_py :: bool
  model_files :: "string \<rightharpoonup> 'b"
  train_time_files :: "string \<rightharpoonup> rat"
  test_files :: "string \<rightharpoonup> 'o"

text \<open>\<open>full_model_path.lstrip('./').replace('/', '.')\<close>.\<close>

definition get_module_path :: "string \<Rightarrow> string" where
  "get_module_path full_model_path =
     map (\<lambda>c. if c = CHR ''/'' then CHR ''.'' else c)
       (dropWhile (\<lambda>c. c \<in> set ''./'') full_model_path)"

text \<open>
  \<open>train_on_fold\<close>. The parameters are what the code takes from outside: the md5 hash
  \<open>hash_of\<close>, \<open>specific.train_model\<close>, \<open>pickle.dump\<close> (the contents it would write, or
  the exception it raises) and the time \<open>elapsed\<close> that the timer measures. Only a
  \<open>PicklingError\<close> is caught, and the model file is then removed; any other exception of
  the dump leaves the function.
\<close>

definition train_on_fold ::
  "(int list \<Rightarrow> string) \<Rightarrow> (string \<Rightarrow> 'x list \<Rightarrow> 'y list \<Rightarrow> error + 'm) \<Rightarrow> ('m \<Rightarrow> error + 'b) \<Rightarrow>
   rat \<Rightarrow> ('x, 'y) data_sets \<Rightarrow> string \<Rightarrow> ('b, 'o) model_dir \<Rightarrow> int list \<times> int list \<Rightarrow>
   error + ('b, 'o) model_dir \<times> 'm" where
  "train_on_fold hash_of train_model dump elapsed data full_model_path dir skf_is =
     (let valid_train_is = fst skf_is;
          hash_string = hash_of valid_train_is
      in bind_err (map_err (py_get (X_train data)) valid_train_is) (\<lambda>X_valid_train.
         bind_err (map_err (py_get (y_train data)) valid_train_is) (\<lambda>y_valid_train.
         let dir1 = dir\<lparr>init_py := True\<rparr>
         in bind_err (train_model (get_module_path full_model_path) X_valid_train y_valid_train)
              (\<lambda>trained_model.
                 let dir2 = dir1\<lparr>train_time_files :=
                                   (train_time_files dir1)(hash_string \<mapsto> elapsed)\<rparr>
                 in case dump trained_model of
                      Inr b \<Rightarrow>
                        Inr (dir2\<lparr>model_files := (model_files dir2)(hash_string \<mapsto> b)\<rparr>,
                             trained_model)
                    | Inl e \<Rightarrow>
                        if e = PicklingError
                        then Inr (dir2\<lparr>model_files := (model_files dir2)(hash_string := None)\<rparr>,
                                  trained_model)
                        else Inl e))))"

text \<open>
  \<open>test_on_fold\<close>. Opening a file that does not exist raises \<open>IOError\<close>; \<open>load\<close> is
  \<open>pickle.load\<close> on the contents of a file that exists, and may raise any exception.
  The \<open>except IOError\<close> clause retrains; every other exception leaves the function.
  \<open>test_model\<close> is \<open>specific.test_model\<close>; the predictions are saved under the hash
  string.
\<close>

definition test_on_fold ::
  "(int list \<Rightarrow> string) \<Rightarrow> (string \<Rightarrow> 'x list \<Rightarrow> 'y list \<Rightarrow> error + 'm) \<Rightarrow> ('m \<Rightarrow> error + 'b) \<Rightarrow>
   ('b \<Rightarrow> error + 'm) \<Rightarrow> ('m \<Rightarrow> 'x list \<Rightarrow> error + 'o) \<Rightarrow>
   rat \<Rightarrow> ('x, 'y) data_sets \<Rightarrow> string \<Rightarrow> ('b, 'o) model_dir \<Rightarrow> int list \<times> int list \<Rightarrow>
   error + ('b, 'o) model_dir" where
  "test_on_fold hash_of train_model dump load test_model elapsed data full_model_path dir skf_is =
     (let valid_train_is = fst skf_is;
          hash_string = hash_of valid_train_is
      in bind_err
           (case (case model_files dir hash_string of
                    None \<Rightarrow> Inl IOError
                  | Some b \<Rightarrow> load b) of
              Inr trained_model \<Rightarrow> Inr (dir, trained_model)
            | Inl e \<Rightarrow>
                if e = IOError
                then train_on_fold hash_of train_model dump elapsed data full_model_path dir skf_is
                else Inl e)
           (\<lambda>(dir', trained_model).
              bind_err (test_model trained_model (X_test data))
                (\<lambda>test_model_output.
                   Inr (dir'\<lparr>test_files := (test_files dir')(hash_string \<mapsto> test_model_output)\<rparr>))))"

section \<open>Leaderboards (generic.py)\<close>

text \<open>
  The files that the leaderboard functions read are parameters: \<open>hash_strings\<close> are the
  folds found in the ground truth directory, \<open>ground_truth_of h\<close> is the ground truth of
  the fold \<open>h\<close> (for the subdirectory asked for) and \<open>read i h\<close> the predictions of the
  model \<open>i\<close> on the fold \<open>h\<close>; \<open>index\<close> is the index of \<open>models_df\<close>. A score is a value
  of a field with a linear order, in which \<open>x > y\<close> reads "x is better than y" and
  \<open>x < y\<close> is its converse; NaN is \<open>None\<close>. \<open>get_scores\<close> first sets the tolerance of the
  score to \<open>0.01 / len(ground_truth)\<close>, a division that raises on an empty ground truth;
  the tolerance itself is part of the parameter \<open>score\<close>.
\<close>

definition get_scores ::
  "('l list \<Rightarrow> 'p \<Rightarrow> 's) \<Rightarrow> ('h \<Rightarrow> 'l list) \<Rightarrow> ('i \<Rightarrow> 'h \<Rightarrow> 'p) \<Rightarrow> 'i list \<Rightarrow> 'h \<Rightarrow>
   error + 's list" where
  "get_scores score ground_truth_of read index hash_string =
     (let ground_truth = ground_truth_of hash_string;
          predictions_list = map (\<lambda>i. read i hash_string) index
      in if length ground_truth = 0 then Inl ZeroDivisionError
         else Inr (map (score ground_truth) predictions_list))"

text \<open>
  \<open>np.mean(np.array(scores_list), axis=0)\<close>: the mean over the folds, model by model. Of
  no fold at all it is the scalar NaN, which the data frame repeats for every model.
\<close>

definition mean_scores_of :: "nat \<Rightarrow> ('s::{linorder,field}) list list \<Rightarrow> error + 's option list" where
  "mean_scores_of n scores_list =
     (case scores_list of
        [] \<Rightarrow> Inr (replicate n None)
      | r # rs \<Rightarrow>
          if list_all (\<lambda>r'. length r' = length r) rs
          then Inr (map (\<lambda>j. Some (sum_list (map (\<lambda>r'. r' ! j) scores_list)
                                     / of_nat (length scores_list))) [0..<length r])
          else Inl (OtherError ''ragged''))"

text \<open>
  \<open>leaderboard_classical\<close>: one row per model, the index of \<open>models_df\<close> with the mean
  score, sorted by \<open>leaderboard.sort(columns=['score'])\<close>, that is in ascending order,
  the rows without a score last. The data frame needs one score per row
  (\<open>ValueError\<close> otherwise). The order that pandas gives to rows of equal score is not
  fixed by the code; the model keeps them in the order of the index.
\<close>

definition leaderboard_classical ::
  "('l list \<Rightarrow> 'p \<Rightarrow> 's::{linorder,field}) \<Rightarrow> 'h list \<Rightarrow> ('h \<Rightarrow> 'l list) \<Rightarrow> ('i \<Rightarrow> 'h \<Rightarrow> 'p) \<Rightarrow>
   'i list \<Rightarrow> error + ('i \<times> 's option) list" where
  "leaderboard_classical score hash_strings ground_truth_of read index =
     bind_err
       (if length index \<noteq> 0
        then bind_err (map_err (get_scores score ground_truth_of read index) hash_strings)
               (mean_scores_of (length index))
        else Inr [])
       (\<lambda>mean_scores.
          if length mean_scores \<noteq> length index then Inl ValueError
          else
            (let rows = zip index mean_scores
             in Inr (sort_key (\<lambda>r. the (snd r)) (filter (\<lambda>r. snd r \<noteq> None) rows)
                     @ filter (\<lambda>r. snd r = None) rows)))"

text \<open>
  \<open>np.histogram(best_index_list, bins=range(n + 1))[0]\<close>: for each model index the number
  of its occurrences; the last bin is closed on the right, so it also counts the value \<open>n\<close>.
\<close>

definition histogram :: "nat \<Rightarrow> int list \<Rightarrow> nat list" where
  "histogram n best_index_list =
     map (\<lambda>i. count_list best_index_list (int i) +
               (if Suc i = n then count_list best_index_list (int n) else 0)) [0..<n]"

text \<open>
  \<open>contributivity_rows\<close> is \<open>leaderboard_combination\<close> from the unpacking of
  \<open>list_of_tuples\<close> on (with \<open>test=False\<close>): unpacking \<open>zip(*list_of_tuples)\<close> raises when
  there is no fold; the counts of the folds are added up, and the rows are sorted with
  \<open>ascending=False\<close>.
\<close>

definition contributivity_rows ::
  "'i list \<Rightarrow> (int list \<times> 's \<times> 's) list \<Rightarrow> error + ('i \<times> nat) list" where
  "contributivity_rows index list_of_tuples =
     (let n = length index
      in if list_of_tuples = [] then Inl ValueError
         else Inr (rev (sort_key snd
                (zip index
                   (foldl (\<lambda>counts t. map2 (+) counts (histogram n (fst t)))
                      (replicate n 0) list_of_tuples)))))"

text \<open>
  \<open>leaderboard_combination\<close>: the models are sorted by timestamp, and the selection
  \<open>get_best_index_list\<close> runs on the files of each fold; a run that raises or does not
  return is the outcome of the whole.
\<close>

fun map_runs :: "('a \<Rightarrow> (error + 'b) option) \<Rightarrow> 'a list \<Rightarrow> (error + 'b list) option" where
  "map_runs f [] = Some (Inr [])"
| "map_runs f (x # xs) =
     (case f x of
        None \<Rightarrow> None
      | Some (Inl e) \<Rightarrow> Some (Inl e)
      | Some (Inr y) \<Rightarrow>
          (case map_runs f xs of
             None \<Rightarrow> None
           | Some (Inl e) \<Rightarrow> Some (Inl e)
           | Some (Inr ys) \<Rightarrow> Some (Inr (y # ys))))"

definition leaderboard_combination ::
  "'l::linorder list \<Rightarrow> ('l list \<Rightarrow> 'l predictions \<Rightarrow> 's::linorder) \<Rightarrow>
   ('l list \<Rightarrow> error + int list \<times> int list) \<Rightarrow>
   (val list \<Rightarrow> rat list \<Rightarrow> error + 'c) \<Rightarrow> ('c \<Rightarrow> val list \<Rightarrow> error + val list) \<Rightarrow>
   (nat \<Rightarrow> nat \<Rightarrow> val) \<Rightarrow> 'h list \<Rightarrow> ('h \<Rightarrow> 'l list) \<Rightarrow> ('i \<Rightarrow> 'h \<Rightarrow> 'l predictions) \<Rightarrow>
   ('i \<times> nat) list \<Rightarrow> (error + ('i \<times> nat) list) option" where
  "leaderboard_combination labels score split iso_fit iso_predict garbage
       hash_strings ground_truth_of read orig_models =
     (let models_df = sort_key snd orig_models;
          index = map fst models_df
      in if length index = 0 then Some (Inr [])
         else case map_runs (\<lambda>hash_string.
                     get_best_index_list labels score split iso_fit iso_predict garbage
                       (ground_truth_of hash_string)
                       (map (\<lambda>i. read i hash_string) index)) hash_strings of
                None \<Rightarrow> None
              | Some (Inl e) \<Rightarrow> Some (Inl e)
              | Some (Inr list_of_tuples) \<Rightarrow> Some (contributivity_rows index list_of_tuples))"

section \<open>Concrete inputs\<close>

text \<open>Folds and submissions on which the theorems below are run.\<close>

definition a_fold :: "submission_state \<Rightarrow> string \<Rightarrow> (unit, rat) submission_on_cv_fold" where
  "a_fold st msg =
     \<lparr>cv_fold = \<lparr>train_is = [0, 1], test_is = [2]\<rparr>, fold_contributivity = 0, best = False,
      full_train_predictions = None, test_predictions = None,
      train_time = 0, valid_time = 0, test_time = 0,
      train_score = 0, valid_score = 0, test_score = 0,
      fold_state = st, fold_error_msg = msg\<rparr>"

definition a_submission ::
  "submission_state \<Rightarrow> string \<Rightarrow> (unit, rat) submission_on_cv_fold list \<Rightarrow>
   (unit, rat) submission" where
  "a_submission st msg fs =
     \<lparr>name = ''m'', training_timestamp = None, contributivity = 0, state = st,
      error_msg = msg, is_valid = True, is_to_ensemble = True, on_cv_folds = fs\<rparr>"

definition a_detached :: "submission_state \<Rightarrow> string \<Rightarrow> unit detached_submission_on_cv_fold" where
  "a_detached st msg =
     \<lparr>d_train_is = [0, 1], d_test_is = [2],
      d_full_train_predictions = Some (), d_test_predictions = Some (),
      d_state = st, d_name = ''t/m'', d_module = ''m'', d_error_msg = msg,
      d_train_time = 3, d_valid_time = 2, d_test_time = 1\<rparr>"

definition a_score :: "unit \<Rightarrow> unit option \<Rightarrow> int list option \<Rightarrow> error + rat" where
  "a_score t p is = Inr 1"

text \<open>
  Predictions that are their own combinable view: a list of values, built from an array by
  \<open>mk_list\<close>.
\<close>

definition mk_list :: "ndarray \<Rightarrow> val list" where
  "mk_list a = (case a of Scalar v \<Rightarrow> [v] | Array vs \<Rightarrow> vs)"

text \<open>
  Inputs of the greedy selection of generic.py: two models on one data point with two
  classes, the first sure of class 0, the second sure of class 1. \<open>ex_score\<close> is the
  probability given to class 0; \<open>cex_score\<close> is the reciprocal of that probability, and
  the worst value 0 when the probability is 0 or missing.
\<close>

definition cex_labels :: "int list" where
  "cex_labels = [0, 1]"

definition cex_truth :: "int list" where
  "cex_truth = [0]"

definition cex_predictions :: "int predictions list" where
  "cex_predictions =
     [([0], \<lparr>n_cols = 2, cells = [[Some 1, Some 0]]\<rparr>),
      ([1], \<lparr>n_cols = 2, cells = [[Some 0, Some 1]]\<rparr>)]"

definition cex_score :: "int list \<Rightarrow> int predictions \<Rightarrow> rat" where
  "cex_score ground_truth p =
     (case cells (snd p) of
        (Some q # _) # _ \<Rightarrow> (if q = 0 then 0 else 1 / q)
      | _ \<Rightarrow> 0)"

definition ex_score :: "int list \<Rightarrow> int predictions \<Rightarrow> rat" where
  "ex_score ground_truth p =
     (case cells (snd p) of
        (Some q # _) # _ \<Rightarrow> q
      | _ \<Rightarrow> 0)"

text \<open>
  Inputs of the round of model.py: two models that predict one number each, a ground truth,
  and the negated absolute error as the score.
\<close>

definition neg_abs_error :: "val list \<Rightarrow> val list \<Rightarrow> rat" where
  "neg_abs_error t p =
     - sum_list (map2 (\<lambda>a b. case (a, b) of (Some x, Some y) \<Rightarrow> \<bar>x - y\<bar> | _ \<Rightarrow> 0) t p)"

definition ex_views :: "val list list" where
  "ex_views = [[Some 0], [Some 3]]"

definition ex_truth :: "val list" where
  "ex_truth = [Some 2]"

text \<open>
  A stand-in for the isotonic regression, for running the calibration on concrete arrays:
  the fitted object keeps the column and the indicator, and predicts for a value the share
  of the positive training points with a column value not above it (a non-decreasing step
  function with values between 0 and 1; 0 when there is no positive point).
\<close>

definition step_fit :: "val list \<Rightarrow> rat list \<Rightarrow> error + (val \<times> rat) list" where
  "step_fit col indicator = Inr (zip col indicator)"

definition step_predict :: "(val \<times> rat) list \<Rightarrow> val list \<Rightarrow> error + val list" where
  "step_predict c col =
     Inr (map (\<lambda>x. case x of
                 None \<Rightarrow> None
               | Some a \<Rightarrow>
                   Some (if sum_list (map snd c) = 0 then 0
                         else sum_list (map snd (filter (\<lambda>p. case fst p of
                                                           None \<Rightarrow> False
                                                         | Some b \<Rightarrow> b \<le> a) c))
                              / sum_list (map snd c))) col)"

text \<open>
  Four points with two class probabilities each, and a split into the halves \<open>[0, 2]\<close> and
  \<open>[1, 3]\<close>.
\<close>

definition half_split :: "int list \<Rightarrow> error + int list \<times> int list" where
  "half_split ground_truth = Inr ([0, 2], [1, 3])"

definition four_probas :: array2 where
  "four_probas =
     \<lparr>n_cols = 2,
      cells = [[Some (6 / 10), Some (4 / 10)], [Some (7 / 10), Some (3 / 10)],
               [Some (2 / 10), Some (8 / 10)], [Some (1 / 10), Some (9 / 10)]]\<rparr>"

text \<open>
  A toy model provider for running \<open>test_on_fold\<close>: the model is the sum of the training
  labels, a prediction adds it to the input; a pickle file holds \<open>Some\<close> model, or \<open>None\<close>
  when its contents are not a pickle.
\<close>

definition toy_hash :: "int list \<Rightarrow> string" where
  "toy_hash is = map (\<lambda>i. if i = 0 then CHR ''0'' else CHR ''1'') is"

definition toy_train :: "string \<Rightarrow> int list \<Rightarrow> int list \<Rightarrow> error + int" where
  "toy_train module_path X y = Inr (sum_list y)"

definition toy_dump :: "int \<Rightarrow> error + int option" where
  "toy_dump m = Inr (Some m)"

definition toy_load :: "int option \<Rightarrow> error + int" where
  "toy_load b = (case b of None \<Rightarrow> Inl UnpicklingError | Some m \<Rightarrow> Inr m)"

definition toy_test :: "int \<Rightarrow> int list \<Rightarrow> error + int list" where
  "toy_test m X = Inr (map (\<lambda>x. x + m) X)"

definition toy_data :: "(int, int) data_sets" where
  "toy_data = \<lparr>X_train = [1, 2, 3], y_train = [10, 20, 30], X_test = [5, 6], y_test = [0, 0]\<rparr>"

definition toy_dir :: "int option option \<Rightarrow> (int option, int list) model_dir" where
  "toy_dir cached =
     \<lparr>init_py = False, model_files = (\<lambda>h. if h = ''01'' then cached else None),
      train_time_files = Map.empty, test_files = Map.empty\<rparr>"

text \<open>
  A score for the leaderboard: the share of the predicted labels that equal the ground
  truth. On the two folds 0 and 1 the model \<open>best\<close> is right on every point; any other
  model predicts \<open>[1, 0]\<close>, wrong on both points of fold 0 and on one point of fold 1.
\<close>

definition accuracy :: "int list \<Rightarrow> int list \<Rightarrow> rat" where
  "accuracy ground_truth y_pred =
     of_nat (length (filter (\<lambda>p. fst p = snd p) (zip ground_truth y_pred)))
       / of_nat (length ground_truth)"

definition fold_truth :: "nat \<Rightarrow> int list" where
  "fold_truth h = (if h = 0 then [0, 1] else [1, 1])"

definition fold_prediction :: "string \<Rightarrow> nat \<Rightarrow> int list" where
  "fold_prediction i h =
     (if i = ''best'' then (if h = 0 then [0, 1] else [1, 1]) else [1, 0])"

section \<open>Lemmas on the state aggregation\<close>

lemma contains_error_iff:
  "str_contains ''error'' (state_name st) \<longleftrightarrow> is_error_state st"
  by (cases st) (simp_all add: is_error_state_def)

lemma py_index_find:
  "x \<in> set xs \<Longrightarrow> \<exists>i. py_index xs x = Inr i \<and> i < length xs \<and> xs ! i = x \<and> (\<forall>j<i. xs ! j \<noteq> x)"
proof (induction xs)
  case Nil then show ?case by simp
next
  case (Cons y ys)
  show ?case
  proof (cases "y = x")
    case True then show ?thesis by simp
  next
    case False
    with Cons obtain i where i: "py_index ys x = Inr i" "i < length ys" "ys ! i = x" "\<forall>j<i. ys ! j \<noteq> x"
      by auto
    have "\<forall>j<Suc i. (y # ys) ! j \<noteq> x"
      using False i(4) by (auto simp: nth_Cons split: nat.splits)
    with i False show ?thesis by simp
  qed
qed

lemma py_get_nat: "i < length xs \<Longrightarrow> py_get xs (int i) = Inr (xs ! i)"
  by (simp add: py_get_def)

lemma find_first:
  "i < length xs \<Longrightarrow> P (xs ! i) \<Longrightarrow> \<forall>j<i. \<not> P (xs ! j) \<Longrightarrow> find P xs = Some (xs ! i)"
proof (induction xs arbitrary: i)
  case Nil then show ?case by simp
next
  case (Cons y ys)
  show ?case
  proof (cases i)
    case 0 with Cons.prems show ?thesis by simp
  next
    case (Suc k)
    with Cons.prems have "\<not> P y" by auto
    moreover have "find P ys = Some (ys ! k)"
      using Cons.prems Suc by (intro Cons.IH) auto
    ultimately show ?thesis using Suc by simp
  qed
qed

lemma copy_error_of_ok:
  assumes "st \<in> set (map fold_state (on_cv_folds s))"
  shows "\<exists>f. find (\<lambda>f. fold_state f = st) (on_cv_folds s) = Some f \<and>
             copy_error_of st s = Inr (s\<lparr>state := st, error_msg := fold_error_msg f\<rparr>)"
proof -
  let ?sts = "map fold_state (on_cv_folds s)"
  from py_index_find[OF assms] obtain i where
    i: "py_index ?sts st = Inr i" "i < length ?sts" "?sts ! i = st" "\<forall>j<i. ?sts ! j \<noteq> st"
    by blast
  have "find (\<lambda>f. fold_state f = st) (on_cv_folds s) = Some (on_cv_folds s ! i)"
    using i by (intro find_first) auto
  moreover have "copy_error_of st s = Inr (s\<lparr>state := st, error_msg := fold_error_msg (on_cv_folds s ! i)\<rparr>)"
    using i by (simp add: copy_error_of_def bind_err_def py_get_nat)
  ultimately show ?thesis by blast
qed


lemma list_all_subset: "list_all (\<lambda>st. st \<in> set ys) xs \<longleftrightarrow> set xs \<subseteq> set ys"
  by (auto simp: list_all_iff)

lemma list_ex_mem: "list_ex (\<lambda>st. st = x) xs \<longleftrightarrow> x \<in> set xs"
  by (auto simp: list_ex_iff)

lemma set_state_after_training_unfold:
  "set_state_after_training now s =
     (let s0 = s\<lparr>training_timestamp := Some now\<rparr>; states = map fold_state (on_cv_folds s0)
      in bind_err
          (if set states \<subseteq> set [Tested] then Inr (s0\<lparr>state := Tested\<rparr>)
           else if set states \<subseteq> set [Tested, Validated] then Inr (s0\<lparr>state := Validated\<rparr>)
           else if set states \<subseteq> set [Tested, Validated, Trained]
             then Inr (s0\<lparr>state := Trained\<rparr>)
           else if Training_error \<in> set states then copy_error_of Training_error s0
           else if Validating_error \<in> set states then copy_error_of Validating_error s0
           else if Testing_error \<in> set states then copy_error_of Testing_error s0
           else Inr s0)
          (\<lambda>s1. if \<not> is_error_state (state s1) then Inr (s1\<lparr>error_msg := []\<rparr>) else Inr s1))"
  by (simp only: set_state_after_training_def list_all_subset list_ex_mem contains_error_iff)

section \<open>The aggregation rule\<close>

text \<open>
  Claim C1. For every list of fold states the aggregation returns, and the state it sets
  follows the chain of the source: \<open>tested\<close> when every fold is \<open>tested\<close>, else
  \<open>validated\<close> when every fold is \<open>tested\<close> or \<open>validated\<close>, else \<open>trained\<close> when every
  fold is \<open>tested\<close>, \<open>validated\<close> or \<open>trained\<close>, else \<open>training_error\<close>,
  \<open>validating_error\<close>, \<open>testing_error\<close> in this order when some fold has that state,
  with the message of the first fold in that state. The message is empty whenever the new
  state is not an error state. The fold states \<open>[tested, validated]\<close> give \<open>validated\<close>, and
  \<open>[tested, testing_error]\<close> give \<open>testing_error\<close> with the message of the second fold.
\<close>

theorem set_state_after_training_rule:
  fixes s :: "('p, 's) submission"
  defines "sts \<equiv> map fold_state (on_cv_folds s)"
  shows "\<exists>s'. set_state_after_training now s = Inr s' \<and>
     (if set sts \<subseteq> {Tested} then state s' = Tested
      else if set sts \<subseteq> {Tested, Validated} then state s' = Validated
      else if set sts \<subseteq> {Tested, Validated, Trained} then state s' = Trained
      else if Training_error \<in> set sts then
        state s' = Training_error \<and>
        (\<exists>f. find (\<lambda>f. fold_state f = Training_error) (on_cv_folds s) = Some f \<and>
             error_msg s' = fold_error_msg f)
      else if Validating_error \<in> set sts then
        state s' = Validating_error \<and>
        (\<exists>f. find (\<lambda>f. fold_state f = Validating_error) (on_cv_folds s) = Some f \<and>
             error_msg s' = fold_error_msg f)
      else if Testing_error \<in> set sts then
        state s' = Testing_error \<and>
        (\<exists>f. find (\<lambda>f. fold_state f = Testing_error) (on_cv_folds s) = Some f \<and>
             error_msg s' = fold_error_msg f)
      else True) \<and>
     (\<not> is_error_state (state s') \<longrightarrow> error_msg s' = '''') \<and>
     (sts = [Tested, Validated] \<longrightarrow> state s' = Validated) \<and>
     (sts = [Tested, Testing_error] \<longrightarrow>
        state s' = Testing_error \<and> error_msg s' = fold_error_msg (on_cv_folds s ! 1))"
proof -
  let ?s0 = "s\<lparr>training_timestamp := Some now\<rparr>"
  have folds: "on_cv_folds ?s0 = on_cv_folds s" by simp
  have ce: "st \<in> set sts \<Longrightarrow>
      \<exists>f. find (\<lambda>f. fold_state f = st) (on_cv_folds s) = Some f \<and>
          copy_error_of st ?s0 = Inr (?s0\<lparr>state := st, error_msg := fold_error_msg f\<rparr>)" for st
    using copy_error_of_ok[of st ?s0] by (simp add: sts_def)
  have two: "sts = [Tested, Testing_error] \<Longrightarrow>
      find (\<lambda>f. fold_state f = Testing_error) (on_cv_folds s) = Some (on_cv_folds s ! 1)"
    by (intro find_first) (auto simp: sts_def map_eq_Cons_conv)
  consider (a) "set sts \<subseteq> {Tested}"
    | (b) "\<not> set sts \<subseteq> {Tested}" "set sts \<subseteq> {Tested, Validated}"
    | (c) "\<not> set sts \<subseteq> {Tested, Validated}" "set sts \<subseteq> {Tested, Validated, Trained}"
    | (d) "\<not> set sts \<subseteq> {Tested, Validated, Trained}" "Training_error \<in> set sts"
    | (e) "\<not> set sts \<subseteq> {Tested, Validated, Trained}" "Training_error \<notin> set sts"
          "Validating_error \<in> set sts"
    | (f) "\<not> set sts \<subseteq> {Tested, Validated, Trained}" "Training_error \<notin> set sts"
          "Validating_error \<notin> set sts" "Testing_error \<in> set sts"
    | (g) "\<not> set sts \<subseteq> {Tested, Validated, Trained}" "Training_error \<notin> set sts"
          "Validating_error \<notin> set sts" "Testing_error \<notin> set sts"
    by blast
  then show ?thesis
  proof cases
    case a
    then show ?thesis
      unfolding set_state_after_training_unfold Let_def folds sts_def[symmetric]
      by (auto simp: bind_err_def is_error_state_def)
  next
    case b
    then show ?thesis
      unfolding set_state_after_training_unfold Let_def folds sts_def[symmetric]
      by (auto simp: bind_err_def is_error_state_def)
  next
    case c
    then show ?thesis
      unfolding set_state_after_training_unfold Let_def folds sts_def[symmetric]
      by (auto simp: bind_err_def is_error_state_def)
  next
    case d
    from ce[OF d(2)] obtain f where
      f: "find (\<lambda>f. fold_state f = Training_error) (on_cv_folds s) = Some f"
         "copy_error_of Training_error ?s0 = Inr (?s0\<lparr>state := Training_error, error_msg := fold_error_msg f\<rparr>)"
      by blast
    with d show ?thesis
      unfolding set_state_after_training_unfold Let_def folds sts_def[symmetric]
      by (auto simp: bind_err_def is_error_state_def)
  next
    case e
    from ce[OF e(3)] obtain f where
      f: "find (\<lambda>f. fold_state f = Validating_error) (on_cv_folds s) = Some f"
         "copy_error_of Validating_error ?s0 = Inr (?s0\<lparr>state := Validating_error, error_msg := fold_error_msg f\<rparr>)"
      by blast
    with e show ?thesis
      unfolding set_state_after_training_unfold Let_def folds sts_def[symmetric]
      by (auto simp: bind_err_def is_error_state_def)
  next
    case f
    from ce[OF f(4)] obtain g where
      g: "find (\<lambda>f. fold_state f = Testing_error) (on_cv_folds s) = Some g"
         "copy_error_of Testing_error ?s0 = Inr (?s0\<lparr>state := Testing_error, error_msg := fold_error_msg g\<rparr>)"
      by blast
    have "sts = [Tested, Testing_error] \<Longrightarrow> g = on_cv_folds s ! 1"
      using two g(1) by simp
    with f g show ?thesis
      unfolding set_state_after_training_unfold Let_def folds sts_def[symmetric]
      by (auto simp: bind_err_def is_error_state_def)
  next
    case g
    then show ?thesis
      unfolding set_state_after_training_unfold Let_def folds sts_def[symmetric]
      by (auto simp: bind_err_def is_error_state_def)
  qed
qed

theorem set_state_after_training_rule_witness:
  "(\<exists>s'. set_state_after_training 7
           (a_submission New ''old'' [a_fold Tested '''', a_fold Validated '''']) = Inr s' \<and>
         state s' = Validated \<and> error_msg s' = '''') \<and>
   (\<exists>s'. set_state_after_training 7
           (a_submission New ''old'' [a_fold Tested '''', a_fold Testing_error ''boom'']) = Inr s' \<and>
         state s' = Testing_error \<and> error_msg s' = ''boom'') \<and>
   (\<exists>s'. set_state_after_training 7
           (a_submission New ''old''
              [a_fold Trained '''', a_fold Training_error ''first'',
               a_fold Training_error ''second'', a_fold Validating_error ''third'']) = Inr s' \<and>
         state s' = Training_error \<and> error_msg s' = ''first'')"
proof (intro conjI)
  show "\<exists>s'. set_state_after_training 7
           (a_submission New ''old'' [a_fold Tested '''', a_fold Validated '''']) = Inr s' \<and>
         state s' = Validated \<and> error_msg s' = ''''"
    using set_state_after_training_rule
          [of 7 "a_submission New ''old'' [a_fold Tested '''', a_fold Validated '''']"]
    by (auto simp add: a_submission_def a_fold_def is_error_state_def)
  show "\<exists>s'. set_state_after_training 7
           (a_submission New ''old'' [a_fold Tested '''', a_fold Testing_error ''boom'']) = Inr s' \<and>
         state s' = Testing_error \<and> error_msg s' = ''boom''"
    using set_state_after_training_rule
          [of 7 "a_submission New ''old'' [a_fold Tested '''', a_fold Testing_error ''boom'']"]
    by (auto simp add: a_submission_def a_fold_def)
  show "\<exists>s'. set_state_after_training 7
           (a_submission New ''old''
              [a_fold Trained '''', a_fold Training_error ''first'',
               a_fold Training_error ''second'', a_fold Validating_error ''third'']) = Inr s' \<and>
         state s' = Training_error \<and> error_msg s' = ''first''"
    using set_state_after_training_rule
          [of 7 "a_submission New ''old''
              [a_fold Trained '''', a_fold Training_error ''first'',
               a_fold Training_error ''second'', a_fold Validating_error ''third'']"]
    by (auto simp add: a_submission_def a_fold_def)
qed

text \<open>
  Claim C10. When some fold is \<open>new\<close>, \<open>checked\<close> or \<open>checking_error\<close> and no fold is
  \<open>training_error\<close>, \<open>validating_error\<close> or \<open>testing_error\<close>, no branch of the chain
  fires: the submission keeps its state, only the timestamp is set, and the message is kept
  when that state is an error state and emptied otherwise.
\<close>

theorem unmatched_states_keep_state:
  fixes s :: "('p, 's) submission"
  assumes "\<exists>st \<in> set (map fold_state (on_cv_folds s)). st \<in> {New, Checked, Checking_error}"
    and "\<forall>st \<in> set (map fold_state (on_cv_folds s)).
           st \<notin> {Training_error, Validating_error, Testing_error}"
  shows "set_state_after_training now s =
           Inr (s\<lparr>training_timestamp := Some now,
                  error_msg := (if is_error_state (state s) then error_msg s else '''')\<rparr>)"
proof -
  let ?sts = "set (map fold_state (on_cv_folds s))"
  from assms(1) have "\<not> ?sts \<subseteq> {Tested, Validated, Trained}" by auto
  then have n: "\<not> ?sts \<subseteq> {Tested}" "\<not> ?sts \<subseteq> {Tested, Validated}"
    "\<not> ?sts \<subseteq> {Tested, Validated, Trained}" by auto
  from assms(2) have e: "Training_error \<notin> ?sts" "Validating_error \<notin> ?sts" "Testing_error \<notin> ?sts"
    by auto
  show ?thesis
    unfolding set_state_after_training_unfold Let_def
    using n e by (simp add: bind_err_def)
qed

theorem unmatched_states_keep_state_witness:
  "set_state_after_training 7
     (a_submission Checking_error ''old'' [a_fold Tested '''', a_fold New '''']) =
   Inr (a_submission Checking_error ''old'' [a_fold Tested '''', a_fold New '''']
          \<lparr>training_timestamp := Some 7\<rparr>) \<and>
   set_state_after_training 7
     (a_submission Trained ''old'' [a_fold Checked '''', a_fold Tested '''']) =
   Inr (a_submission Trained ''old'' [a_fold Checked '''', a_fold Tested '''']
          \<lparr>training_timestamp := Some 7, error_msg := ''''\<rparr>)"
  using unmatched_states_keep_state
          [of "a_submission Checking_error ''old'' [a_fold Tested '''', a_fold New '''']" 7]
        unmatched_states_keep_state
          [of "a_submission Trained ''old'' [a_fold Checked '''', a_fold Tested '''']" 7]
  by (simp add: a_submission_def a_fold_def is_error_state_def)

section \<open>Updating a fold from a worker result\<close>

text \<open>
  Claim C9. When the worker's result is in an error state, \<open>update\<close> changes the state and
  the error message of the fold and nothing else: predictions, times and scores keep their
  values.
\<close>

theorem update_error_frame:
  assumes "is_error_state (d_state d)"
  shows "update score true_train true_test self d =
           Inr (self\<lparr>fold_state := d_state d, fold_error_msg := d_error_msg d\<rparr>)"
  using assms by (simp add: update_def is_error_def)

theorem update_error_frame_witness:
  "update a_score () () (a_fold Trained '''') (a_detached Validating_error ''trace'') =
     Inr (a_fold Validating_error ''trace'')"
  using update_error_frame [of "a_detached Validating_error ''trace''" a_score "()" "()" "a_fold Trained ''''"]
  by (simp add: a_detached_def a_fold_def is_error_state_def)

section \<open>The mean that ignores NaN\<close>







lemma nanmean_axis0_Cons:
  "nanmean_axis0 (r # rs) =
     (if list_all (\<lambda>r'. length r' = length r) rs
      then Inr (Array (map (\<lambda>j. nanmean (map (\<lambda>r'. r' ! j) (r # rs))) [0..<length r]))
      else Inl (OtherError ''ragged''))"
  by (simp add: nanmean_axis0_def)



text \<open>The selection step: every index looked up, the first bad one raising.\<close>

lemma py_get_in_range: "py_get xs i = (if in_range xs i then Inr (py_at xs i) else Inl IndexError)"
  by (auto simp: py_get_def in_range_def py_at_def)

lemma map_err_select:
  "map_err (\<lambda>i. bind_err (py_get ps i) (\<lambda>p. Inr (f p))) is =
     (if list_all (in_range ps) is then Inr (map (\<lambda>i. f (py_at ps i)) is) else Inl IndexError)"
  by (induction "is") (auto simp: py_get_in_range bind_err_def)





lemma nanmean_axis0_uniform:
  assumes "rows \<noteq> []" "list_all (\<lambda>r. length r = n) rows"
  shows "nanmean_axis0 rows = Inr (Array (map (\<lambda>j. nanmean (map (\<lambda>r. r ! j) rows)) [0..<n]))"
proof (cases rows)
  case Nil with assms show ?thesis by simp
next
  case (Cons r rs)
  with assms(2) have "length r = n" "list_all (\<lambda>r'. length r' = length r) rs"
    by (auto simp: list_all_iff)
  then show ?thesis unfolding Cons nanmean_axis0_Cons by simp
qed

lemma combine_elementwise:
  assumes "list_all (in_range ps) is" "is \<noteq> []"
    and "list_all (\<lambda>i. length (v (py_at ps i)) = n) is"
  shows "combine_predictions_list mk v ps (Some is) =
           Inr (mk (Array (map (\<lambda>j. nanmean (map (\<lambda>i. v (py_at ps i) ! j) is)) [0..<n])))"
proof -
  have "nanmean_axis0 (map (\<lambda>i. v (py_at ps i)) is) =
          Inr (Array (map (\<lambda>j. nanmean (map (\<lambda>r. r ! j) (map (\<lambda>i. v (py_at ps i)) is))) [0..<n]))"
    using assms(2,3) by (intro nanmean_axis0_uniform) (simp_all add: list_all_iff)
  then show ?thesis
    unfolding combine_predictions_list_def Let_def option.case map_err_select
    using assms(1) by (simp add: bind_err_def comp_def)
qed





section \<open>The greedy rounds and the outer loop\<close>

lemma scan_result:
  assumes "scan ps (bi, bs) = (bi', bs')"
  shows "if \<forall>p\<in>set ps. snd p \<le> bs then bi' = bi \<and> bs' = bs
         else \<exists>k<length ps. bi' = int (fst (ps ! k)) \<and> bs' = snd (ps ! k) \<and> bs < bs' \<and>
                (\<forall>j<length ps. snd (ps ! j) \<le> bs') \<and> (\<forall>j<k. snd (ps ! j) < bs')"
  using assms
proof (induction ps arbitrary: bi bs)
  case Nil
  then show ?case by simp
next
  case (Cons p r)
  obtain i s where p: "p = (i, s)" by (cases p)
  show ?case
  proof (cases "bs < s")
    case True
    with Cons.prems p have sc: "scan r (int i, s) = (bi', bs')" by simp
    note ih = Cons.IH[OF sc]
    have ne: "\<not> (\<forall>q\<in>set (p # r). snd q \<le> bs)" using True p by auto
    show ?thesis
    proof (cases "\<forall>q\<in>set r. snd q \<le> s")
      case all: True
      with ih have e: "bi' = int i" "bs' = s" by simp_all
      have "\<forall>j<length (p # r). snd ((p # r) ! j) \<le> bs'"
        using all e p by (auto simp: nth_Cons split: nat.splits)
      with e True p have "0 < length (p # r) \<and> bi' = int (fst ((p # r) ! 0)) \<and>
          bs' = snd ((p # r) ! 0) \<and> bs < bs' \<and>
          (\<forall>j<length (p # r). snd ((p # r) ! j) \<le> bs') \<and> (\<forall>j<0. snd ((p # r) ! j) < bs')"
        by simp
      then have ex: "\<exists>k<length (p # r). bi' = int (fst ((p # r) ! k)) \<and> bs' = snd ((p # r) ! k) \<and>
          bs < bs' \<and> (\<forall>j<length (p # r). snd ((p # r) ! j) \<le> bs') \<and>
          (\<forall>j<k. snd ((p # r) ! j) < bs')"
        by blast
      show ?thesis unfolding if_not_P[OF ne] by (rule ex)
    next
      case False
      with ih obtain k where k: "k < length r" "bi' = int (fst (r ! k))" "bs' = snd (r ! k)"
        "s < bs'" "\<forall>j<length r. snd (r ! j) \<le> bs'" "\<forall>j<k. snd (r ! j) < bs'"
        by auto
      have 1: "\<forall>j<length (p # r). snd ((p # r) ! j) \<le> bs'"
        using k(4,5) p by (auto simp: nth_Cons split: nat.splits)
      have 2: "\<forall>j<Suc k. snd ((p # r) ! j) < bs'"
        using k(4,6) p by (auto simp: nth_Cons split: nat.splits)
      have "Suc k < length (p # r) \<and> bi' = int (fst ((p # r) ! Suc k)) \<and>
          bs' = snd ((p # r) ! Suc k) \<and> bs < bs'"
        using k True by simp
      with 1 2 have ex: "\<exists>k<length (p # r). bi' = int (fst ((p # r) ! k)) \<and> bs' = snd ((p # r) ! k) \<and>
          bs < bs' \<and> (\<forall>j<length (p # r). snd ((p # r) ! j) \<le> bs') \<and>
          (\<forall>j<k. snd ((p # r) ! j) < bs')"
        by blast
      show ?thesis unfolding if_not_P[OF ne] by (rule ex)
    qed
  next
    case False
    with Cons.prems p have sc: "scan r (bi, bs) = (bi', bs')" by simp
    note ih = Cons.IH[OF sc]
    from False have sle: "s \<le> bs" by simp
    show ?thesis
    proof (cases "\<forall>q\<in>set r. snd q \<le> bs")
      case True
      then have all': "\<forall>q\<in>set (p # r). snd q \<le> bs" using sle p by simp
      from ih True have "bi' = bi \<and> bs' = bs" by simp
      then show ?thesis unfolding if_P[OF all'] .
    next
      case nall: False
      with ih obtain k where k: "k < length r" "bi' = int (fst (r ! k))" "bs' = snd (r ! k)"
        "bs < bs'" "\<forall>j<length r. snd (r ! j) \<le> bs'" "\<forall>j<k. snd (r ! j) < bs'"
        by auto
      have 1: "\<forall>j<length (p # r). snd ((p # r) ! j) \<le> bs'"
        using k(4,5) sle p by (auto simp: nth_Cons split: nat.splits)
      have 2: "\<forall>j<Suc k. snd ((p # r) ! j) < bs'"
        using k(4,6) sle p by (auto simp: nth_Cons split: nat.splits)
      have "Suc k < length (p # r) \<and> bi' = int (fst ((p # r) ! Suc k)) \<and>
          bs' = snd ((p # r) ! Suc k) \<and> bs < bs'"
        using k by simp
      with 1 2 have ex: "\<exists>k<length (p # r). bi' = int (fst ((p # r) ! k)) \<and> bs' = snd ((p # r) ! k) \<and>
          bs < bs' \<and> (\<forall>j<length (p # r). snd ((p # r) ! j) \<le> bs') \<and>
          (\<forall>j<k. snd ((p # r) ! j) < bs')"
        by blast
      have ne': "\<not> (\<forall>q\<in>set (p # r). snd q \<le> bs)" using nall by simp
      show ?thesis unfolding if_not_P[OF ne'] by (rule ex)
    qed
  qed
qed

lemma next_best_loop_scan:
  assumes "\<forall>i\<in>set is. combine_predictions_list mk v pl (Some (bil @ [int i])) = Inr (c i)"
  shows "next_best_loop mk v score pl t bil is st =
           Inr (scan (map (\<lambda>i. (i, score t (c i))) is) st)"
  using assms
proof (induction "is" arbitrary: st)
  case Nil
  then show ?case by (cases st) simp
next
  case (Cons i rest)
  obtain bi bs where st: "st = (bi, bs)" by (cases st)
  from Cons.prems have c: "combine_predictions_list mk v pl (Some (bil @ [int i])) = Inr (c i)"
    and r: "\<forall>j\<in>set rest. combine_predictions_list mk v pl (Some (bil @ [int j])) = Inr (c j)"
    by simp_all
  show ?case
    unfolding st by (simp add: c bind_err_def Let_def Cons.IH[OF r])
qed

lemma best_combine_loop_scan:
  assumes "\<forall>i\<in>set is. combine_models_using_probas labels pl (bil @ [int i]) = Inr (c i)"
  shows "\<exists>p' bi'. best_combine_loop labels score pl gt bil is (p, bi) = Inr (p', bi') \<and>
            scan (map (\<lambda>i. (i, score gt (c i))) is) (bi, score gt p) = (bi', score gt p')"
  using assms
proof (induction "is" arbitrary: p bi)
  case Nil
  then show ?case by simp
next
  case (Cons i rest)
  from Cons.prems have c: "combine_models_using_probas labels pl (bil @ [int i]) = Inr (c i)"
    and r: "\<forall>j\<in>set rest. combine_models_using_probas labels pl (bil @ [int j]) = Inr (c j)"
    by simp_all
  show ?case
  proof (cases "score gt (c i) > score gt p")
    case True
    with Cons.IH[OF r, of "c i" "int i"] show ?thesis
      by (simp add: c bind_err_def)
  next
    case False
    with Cons.IH[OF r, of p bi] show ?thesis
      by (simp add: c bind_err_def)
  qed
qed

lemma scan_upt_result:
  assumes "scan (map (\<lambda>i. (i, f i)) [0..<n]) (- 1, bs) = (bi', bs')"
  shows "if \<forall>i<n. f i \<le> bs then bi' = - 1 \<and> bs' = bs
         else \<exists>k<n. bi' = int k \<and> bs' = f k \<and> bs < f k \<and>
                (\<forall>j<n. f j \<le> f k) \<and> (\<forall>j<k. f j < f k)"
proof -
  let ?ps = "map (\<lambda>i. (i, f i)) [0..<n]"
  have a: "(\<forall>p\<in>set ?ps. snd p \<le> bs) \<longleftrightarrow> (\<forall>i<n. f i \<le> bs)" by auto
  note r = scan_result[OF assms]
  show ?thesis
  proof (cases "\<forall>i<n. f i \<le> bs")
    case True
    with r a show ?thesis by simp
  next
    case False
    with a have "\<not> (\<forall>p\<in>set ?ps. snd p \<le> bs)" by simp
    with r obtain k where k: "k < length ?ps" "bi' = int (fst (?ps ! k))" "bs' = snd (?ps ! k)"
      "bs < bs'" "\<forall>j<length ?ps. snd (?ps ! j) \<le> bs'" "\<forall>j<k. snd (?ps ! j) < bs'"
      by (auto simp only: if_False)
    have kn: "k < n" using k(1) by simp
    have "bi' = int k" "bs' = f k" using k(2,3) kn by simp_all
    moreover have "\<forall>j<n. f j \<le> f k" using k(5) \<open>bs' = f k\<close> by simp
    moreover have "\<forall>j<k. f j < f k" using k(6) kn \<open>bs' = f k\<close> by simp
    ultimately have "\<exists>k<n. bi' = int k \<and> bs' = f k \<and> bs < f k \<and>
                (\<forall>j<n. f j \<le> f k) \<and> (\<forall>j<k. f j < f k)"
      using kn k(4) by blast
    then show ?thesis unfolding if_not_P[OF False] .
  qed
qed

lemma py_at_mem: "in_range xs i \<Longrightarrow> py_at xs i \<in> set xs"
  by (auto simp: in_range_def py_at_def)

lemma in_range_nat: "i < length xs \<Longrightarrow> in_range xs (int i)"
  by (simp add: in_range_def)

lemma combine_ok:
  assumes "list_all (in_range pl) is" "is \<noteq> []" "list_all (\<lambda>p. length (v p) = m) pl"
  shows "\<exists>c. combine_predictions_list mk v pl (Some is) = Inr c"
proof -
  have "list_all (\<lambda>i. length (v (py_at pl i)) = m) is"
    using assms(1,3) py_at_mem[of pl] by (auto simp: list_all_iff)
  from combine_elementwise[OF assms(1,2) this] show ?thesis by blast
qed

lemma Inr_projr: "\<exists>c. x = Inr c \<Longrightarrow> x = Inr (projr x)"
  by auto

lemma get_next_best_single_fold_result:
  fixes score :: "'p \<Rightarrow> 'p \<Rightarrow> 's::linorder" and mk :: "ndarray \<Rightarrow> 'p"
    and v :: "'p \<Rightarrow> val list" and pl :: "'p list" and t :: 'p and bil :: "int list"
  assumes valid: "list_all (in_range pl) bil" "bil \<noteq> []"
    "list_all (\<lambda>p. length (v p) = m) pl"
  defines "comb \<equiv> \<lambda>is. projr (combine_predictions_list mk v pl (Some is))"
  defines "cur \<equiv> score t (comb bil)" and "ext \<equiv> \<lambda>i. score t (comb (bil @ [int i]))"
  shows "\<exists>res sc. get_next_best_single_fold mk v score pl t bil = Inr (res, sc) \<and>
     (if \<forall>i<length pl. ext i \<le> cur then res = bil \<and> sc = cur
      else \<exists>k<length pl. res = bil @ [int k] \<and> sc = ext k \<and> cur < ext k \<and>
             (\<forall>j<length pl. ext j \<le> ext k) \<and> (\<forall>j<k. ext j < ext k))"
proof -
  have c0: "combine_predictions_list mk v pl (Some bil) = Inr (comb bil)"
    unfolding comb_def by (rule Inr_projr) (rule combine_ok[OF valid])
  have ci: "\<forall>i\<in>set [0..<length pl].
      combine_predictions_list mk v pl (Some (bil @ [int i])) = Inr (comb (bil @ [int i]))"
  proof
    fix i assume "i \<in> set [0..<length pl]"
    then have "list_all (in_range pl) (bil @ [int i])"
      using valid(1) by (simp add: in_range_nat)
    then show "combine_predictions_list mk v pl (Some (bil @ [int i])) = Inr (comb (bil @ [int i]))"
      unfolding comb_def by (intro Inr_projr combine_ok[OF _ _ valid(3)]) simp_all
  qed
  obtain bi' bs' where sc: "scan (map (\<lambda>i. (i, ext i)) [0..<length pl]) (- 1, cur) = (bi', bs')"
    by (cases "scan (map (\<lambda>i. (i, ext i)) [0..<length pl]) (- 1, cur)")
  have loop: "next_best_loop mk v score pl t bil [0..<length pl] (- 1, cur) = Inr (bi', bs')"
    using next_best_loop_scan[OF ci, of score t "(- 1, cur)"] sc by (simp add: ext_def)
  have run: "get_next_best_single_fold mk v score pl t bil =
      (if bi' > - 1 then Inr (bil @ [bi'], bs') else Inr (bil, bs'))"
    unfolding get_next_best_single_fold_def c0 using loop by (simp add: bind_err_def cur_def)
  note r = scan_upt_result[OF sc]
  show ?thesis
  proof (cases "\<forall>i<length pl. ext i \<le> cur")
    case True
    with r have "bi' = - 1" "bs' = cur" by simp_all
    with run have "get_next_best_single_fold mk v score pl t bil = Inr (bil, cur)" by simp
    then show ?thesis unfolding if_P[OF True] by simp
  next
    case False
    with r obtain k where k: "k < length pl" "bi' = int k" "bs' = ext k" "cur < ext k"
      "\<forall>j<length pl. ext j \<le> ext k" "\<forall>j<k. ext j < ext k"
      by (auto simp only: if_False)
    from run k(2,3) have "get_next_best_single_fold mk v score pl t bil = Inr (bil @ [int k], ext k)"
      by simp
    with k show ?thesis unfolding if_not_P[OF False] by blast
  qed
qed

lemma argmax_from_lt: "k < i \<Longrightarrow> argmax_from m k i xs < i + length xs"
proof (induction xs arbitrary: m k i)
  case Nil
  then show ?case by simp
next
  case (Cons x xs)
  have "argmax_from x i (Suc i) xs < Suc i + length xs"
    by (rule Cons.IH) simp
  moreover have "argmax_from m k (Suc i) xs < Suc i + length xs"
    by (rule Cons.IH) (use Cons.prems in simp)
  ultimately show ?case by simp
qed

lemma argmax_lt: "xs \<noteq> [] \<Longrightarrow> \<exists>k. argmax xs = Inr k \<and> k < length xs"
proof (cases xs)
  case Nil then show "xs \<noteq> [] \<Longrightarrow> ?thesis" by simp
next
  case (Cons x xs')
  have "argmax_from x 0 1 xs' < 1 + length xs'" by (rule argmax_from_lt) simp
  then show ?thesis by (simp add: argmax_def Cons)
qed

lemma np_argmax_ok:
  assumes "row \<noteq> []"
  shows "\<exists>k. np_argmax row = Inr k \<and> k < length row"
proof (cases "None \<in> set row")
  case True
  from py_index_find[OF True] show ?thesis
    using assms True by (auto simp: np_argmax_def)
next
  case False
  from argmax_lt[of "map the row"] assms False show ?thesis
    by (auto simp: np_argmax_def)
qed

lemma map_err_ok:
  "(\<forall>x\<in>set xs. \<exists>y. f x = Inr y) \<Longrightarrow> \<exists>ys. map_err f xs = Inr ys \<and> length ys = length xs"
proof (induction xs)
  case Nil then show ?case by simp
next
  case (Cons x xs)
  then obtain y ys where "f x = Inr y" "map_err f xs = Inr ys" "length ys = length xs"
    by auto
  then show ?case by simp
qed

lemma get_y_pred_array_ok:
  assumes "list_all (\<lambda>r. length r = nc) (cells a)" "0 < nc" "nc \<le> length labels"
  shows "\<exists>yp. get_y_pred_array labels a = Inr yp"
proof -
  have "\<exists>y. bind_err (np_argmax r) (\<lambda>k. py_get labels (int k)) = Inr y" if "r \<in> set (cells a)" for r
  proof -
    from that assms have "r \<noteq> []" "length r \<le> length labels" by (auto simp: list_all_iff)
    with np_argmax_ok[of r] obtain k where "np_argmax r = Inr k" "k < length labels" by auto
    then show ?thesis by (simp add: bind_err_def py_get_nat)
  qed
  then have "\<forall>r\<in>set (cells a). \<exists>y. bind_err (np_argmax r) (\<lambda>k. py_get labels (int k)) = Inr y"
    by blast
  from map_err_ok[OF this] show ?thesis unfolding get_y_pred_array_def by blast
qed

lemma mean_axis0_shape:
  assumes "arrays \<noteq> []"
    and "list_all (\<lambda>a. n_cols a = nc \<and> length (cells a) = nr \<and>
                      list_all (\<lambda>r. length r = nc) (cells a)) arrays"
  shows "\<exists>m. mean_axis0 arrays = Inr m \<and> n_cols m = nc \<and> length (cells m) = nr \<and>
             list_all (\<lambda>r. length r = nc) (cells m) \<and>
             cells m = map (\<lambda>i. map (\<lambda>j. np_mean (map (\<lambda>b. cells b ! i ! j) arrays)) [0..<nc])
                         [0..<nr]"
proof (cases arrays)
  case Nil with assms show ?thesis by simp
next
  case (Cons a as)
  have sh: "map length (cells b) = replicate nr nc" if "b \<in> set arrays" for b
  proof -
    from that assms(2) have "length (cells b) = nr" "\<forall>r\<in>set (cells b). length r = nc"
      by (auto simp: list_all_iff)
    then have "map length (cells b) = map (\<lambda>x. nc) (cells b)" by simp
    also have "\<dots> = replicate (length (cells b)) nc" by (rule map_replicate_const)
    finally show ?thesis using \<open>length (cells b) = nr\<close> by simp
  qed
  have ok: "list_all (\<lambda>b. n_cols b = n_cols a \<and> map length (cells b) = map length (cells a)) as"
    using assms(2) sh Cons by (auto simp: list_all_iff)
  have a: "n_cols a = nc" "n_rows a = nr" "\<forall>i<nr. length (cells a ! i) = nc"
    using assms(2) Cons by (auto simp: list_all_iff n_rows_def)
  have "map (\<lambda>i. map (\<lambda>j. np_mean (map (\<lambda>b. cells b ! i ! j) arrays)) [0..<length (cells a ! i)])
          [0..<nr] =
        map (\<lambda>i. map (\<lambda>j. np_mean (map (\<lambda>b. cells b ! i ! j) arrays)) [0..<nc]) [0..<nr]"
    using a(3) by simp
  then show ?thesis
    using ok a(1,2) unfolding mean_axis0_def Cons list.case by (simp add: list_all_iff flip: Cons)
qed

lemma select_probas:
  "map_err (\<lambda>index. bind_err (py_get pl index) (\<lambda>(y_pred_array, y_probas_array). Inr y_probas_array)) is =
     (if list_all (in_range pl) is then Inr (map (\<lambda>i. snd (py_at pl i)) is) else Inl IndexError)"
  unfolding case_prod_unfold by (rule map_err_select)

lemma combine_models_ok:
  assumes "well_formed labels pl nr nc" "is \<noteq> []" "list_all (in_range pl) is"
  shows "\<exists>yp m. combine_models_using_probas labels pl is = Inr (yp, m) \<and>
           mean_axis0 (map (\<lambda>i. snd (py_at pl i)) is) = Inr m"
proof -
  let ?arrays = "map (\<lambda>i. snd (py_at pl i)) is"
  have sh: "list_all (\<lambda>a. n_cols a = nc \<and> length (cells a) = nr \<and>
                      list_all (\<lambda>r. length r = nc) (cells a)) ?arrays"
    using assms(1,3) py_at_mem[of pl] by (auto simp: well_formed_def list_all_iff)
  have ne: "?arrays \<noteq> []" using assms(2) by simp
  from mean_axis0_shape[OF ne sh] obtain m where m: "mean_axis0 ?arrays = Inr m"
    "list_all (\<lambda>r. length r = nc) (cells m)" by blast
  from assms(1) have "0 < nc" "nc \<le> length labels" by (simp_all add: well_formed_def)
  from get_y_pred_array_ok[OF m(2) this] obtain yp where yp: "get_y_pred_array labels m = Inr yp"
    by blast
  have "combine_models_using_probas labels pl is = Inr (yp, m)"
    unfolding combine_models_using_probas_def Let_def select_probas
    using assms(2,3) m(1) yp by (simp add: bind_err_def)
  with m(1) show ?thesis by blast
qed

lemma best_combine_result:
  fixes score :: "'l list \<Rightarrow> 'l predictions \<Rightarrow> 's::linorder" and labels :: "'l list"
    and pl :: "'l predictions list" and gt :: "'l list" and bil :: "int list"
  assumes wf: "well_formed labels pl nr nc" and valid: "list_all (in_range pl) bil" "bil \<noteq> []"
  defines "comb \<equiv> \<lambda>is. projr (combine_models_using_probas labels pl is)"
  defines "cur \<equiv> score gt (comb bil)" and "ext \<equiv> \<lambda>i. score gt (comb (bil @ [int i]))"
  shows "\<exists>res. best_combine labels score pl gt bil = Inr res \<and>
     (if \<forall>i<length pl. ext i \<le> cur then res = bil
      else \<exists>k<length pl. res = bil @ [int k] \<and> cur < ext k \<and>
             (\<forall>j<length pl. ext j \<le> ext k) \<and> (\<forall>j<k. ext j < ext k))"
proof -
  have ok: "combine_models_using_probas labels pl is = Inr (comb is)"
    if "is \<noteq> []" "list_all (in_range pl) is" for "is"
    unfolding comb_def using combine_models_ok[OF wf that] by (intro Inr_projr) blast
  have c0: "combine_models_using_probas labels pl bil = Inr (comb bil)"
    using valid by (intro ok)
  have ci: "\<forall>i\<in>set [0..<length pl].
      combine_models_using_probas labels pl (bil @ [int i]) = Inr (comb (bil @ [int i]))"
    using valid(1) by (auto intro!: ok simp: in_range_nat)
  from best_combine_loop_scan[OF ci, of score gt "comb bil" "- 1"]
  obtain p' bi' where loop: "best_combine_loop labels score pl gt bil [0..<length pl] (comb bil, - 1) =
        Inr (p', bi')"
    and sc: "scan (map (\<lambda>i. (i, ext i)) [0..<length pl]) (- 1, cur) = (bi', score gt p')"
    unfolding ext_def cur_def by blast
  have run: "best_combine labels score pl gt bil =
      (if bi' > - 1 then Inr (bil @ [bi']) else Inr bil)"
    unfolding best_combine_def c0 by (simp add: bind_err_def loop)
  note r = scan_upt_result[OF sc]
  show ?thesis
  proof (cases "\<forall>i<length pl. ext i \<le> cur")
    case True
    with r have "bi' = - 1" by simp
    with run have "best_combine labels score pl gt bil = Inr bil" by simp
    then show ?thesis unfolding if_P[OF True] by simp
  next
    case False
    with r obtain k where k: "k < length pl" "bi' = int k" "cur < ext k"
      "\<forall>j<length pl. ext j \<le> ext k" "\<forall>j<k. ext j < ext k"
      by (auto simp only: if_False)
    from run k(2) have "best_combine labels score pl gt bil = Inr (bil @ [int k])"
      by simp
    with k show ?thesis unfolding if_not_P[OF False] by blast
  qed
qed

lemma best_combine_form:
  assumes "best_combine labels score pl gt l = Inr l'"
  shows "l' = l \<or> (\<exists>k. l' = l @ [k])"
  using assms unfolding best_combine_def bind_err_def
  by (auto split: sum.splits prod.splits if_splits)

lemma best_combine_same_length:
  assumes "best_combine labels score pl gt l = Inr l'" "length l' = length l"
  shows "l' = l"
  using best_combine_form[OF assms(1)] assms(2) by auto

lemma greedy_while_stop:
  "best_combine labels score pl gt l = Inr l' \<Longrightarrow> length l' = length l \<Longrightarrow>
     greedy_while labels score pl gt l = Some (Inr l)"
  by (subst greedy_while.simps) (simp add: best_combine_same_length)

lemma greedy_while_continue:
  "best_combine labels score pl gt l = Inr l' \<Longrightarrow> length l' \<noteq> length l \<Longrightarrow>
     greedy_while labels score pl gt l = greedy_while labels score pl gt l'"
  by (subst greedy_while.simps) simp

lemma greedy_while_error:
  "best_combine labels score pl gt l = Inl e \<Longrightarrow>
     greedy_while labels score pl gt l = Some (Inl e)"
  by (subst greedy_while.simps) simp

lemma greedy_while_fixpoint_aux:
  "greedy_while labels score pl gt l = Some y \<Longrightarrow>
     \<forall>r. y = Inr r \<longrightarrow> best_combine labels score pl gt r = Inr r"
proof (induction rule: greedy_while.raw_induct[rotated 1, consumes 1])
  case (1 greedy_while' labels score pl gt l y)
  show ?case
  proof (cases "best_combine labels score pl gt l")
    case (Inl e)
    with 1(2) show ?thesis by auto
  next
    case (Inr l')
    show ?thesis
    proof (cases "length l' = length l")
      case True
      with Inr 1(2) have "y = Inr l'" by simp
      moreover have "l' = l" using best_combine_same_length[OF Inr True] .
      ultimately show ?thesis using Inr by simp
    next
      case False
      with Inr 1(2) have "greedy_while' labels score pl gt l' = Some y" by simp
      from 1(1)[OF this] show ?thesis .
    qed
  qed
qed

lemma cex_wf: "well_formed cex_labels cex_predictions 1 2"
  by (simp add: well_formed_def cex_labels_def cex_predictions_def)

lemma cex_in_range: "set l \<subseteq> {0, 1} \<Longrightarrow> list_all (in_range cex_predictions) l"
  by (auto simp: list_all_iff in_range_def cex_predictions_def)

lemma cex_cell:
  "i \<in> {0, 1} \<Longrightarrow> cells (snd (py_at cex_predictions i)) ! 0 ! 0 = Some (if i = 0 then 1 else 0)"
  by (auto simp: py_at_def cex_predictions_def)

lemma sum_indicator:
  "sum_list (map (\<lambda>i. if i = (0::int) then 1 else 0) l) = (of_nat (count_list l 0) :: rat)"
  by (induction l) simp_all

lemma np_mean_Some:
  "xs \<noteq> [] \<Longrightarrow> np_mean (map Some xs) = Some (sum_list xs / of_nat (length xs))"
  by (auto simp: np_mean_def comp_def)

lemma cex_mean:
  assumes "set l \<subseteq> {0, 1}" "l \<noteq> []"
  shows "np_mean (map (\<lambda>b. cells b ! 0 ! 0) (map (\<lambda>i. snd (py_at cex_predictions i)) l)) =
           Some (of_nat (count_list l 0) / of_nat (length l))"
proof -
  have eq: "map (\<lambda>b. cells b ! 0 ! 0) (map (\<lambda>i. snd (py_at cex_predictions i)) l) =
          map Some (map (\<lambda>i. if i = 0 then 1 else (0::rat)) l)"
    using assms(1) cex_cell by (auto simp: subset_iff)
  have ne: "map (\<lambda>i. if i = (0::int) then 1 else (0::rat)) l \<noteq> []"
    using assms(2) by simp
  show ?thesis
    unfolding eq np_mean_Some[OF ne] sum_indicator by simp
qed

lemma cex_score_of:
  assumes "set l \<subseteq> {0, 1}" "l \<noteq> []"
  shows "cex_score cex_truth (projr (combine_models_using_probas cex_labels cex_predictions l)) =
           (if count_list l 0 = 0 then 0 else of_nat (length l) / of_nat (count_list l 0))"
proof -
  from combine_models_ok[OF cex_wf assms(2) cex_in_range[OF assms(1)]]
  obtain yp m where c: "combine_models_using_probas cex_labels cex_predictions l = Inr (yp, m)"
    and m: "mean_axis0 (map (\<lambda>i. snd (py_at cex_predictions i)) l) = Inr m" by blast
  let ?arrays = "map (\<lambda>i. snd (py_at cex_predictions i)) l"
  have sh: "list_all (\<lambda>a. n_cols a = 2 \<and> length (cells a) = 1 \<and>
                      list_all (\<lambda>r. length r = 2) (cells a)) ?arrays"
    using cex_wf cex_in_range[OF assms(1)] py_at_mem[of cex_predictions]
    by (auto simp: well_formed_def list_all_iff)
  from mean_axis0_shape[OF _ sh] assms(2) m
  have "cells m = map (\<lambda>i. map (\<lambda>j. np_mean (map (\<lambda>b. cells b ! i ! j) ?arrays)) [0..<2]) [0..<1]"
    by auto
  then have "cells m = [[np_mean (map (\<lambda>b. cells b ! 0 ! 0) ?arrays),
                         np_mean (map (\<lambda>b. cells b ! 0 ! 1) ?arrays)]]"
    by (simp add: upt_rec)
  then have "cells m = [[Some (of_nat (count_list l 0) / of_nat (length l)),
                         np_mean (map (\<lambda>b. cells b ! 0 ! 1) ?arrays)]]"
    using cex_mean[OF assms] by simp
  then show ?thesis
    using assms(2) by (simp add: c cex_score_def)
qed

lemma count_rep: "count_list (replicate m (1::int)) 0 = 0"
  by (induction m) simp_all

lemma cex_round:
  "best_combine cex_labels cex_score cex_predictions cex_truth (0 # replicate m 1) =
     Inr (0 # replicate (Suc m) 1)"
proof -
  let ?l = "0 # replicate m (1::int)"
  let ?comb = "\<lambda>is. projr (combine_models_using_probas cex_labels cex_predictions is)"
  have s: "set ?l \<subseteq> {0, 1}" by auto
  have s0: "set (?l @ [0]) \<subseteq> {0, 1}" and s1: "set (?l @ [1]) \<subseteq> {0, 1}" by auto
  have cur: "cex_score cex_truth (?comb ?l) = of_nat (Suc m)"
    using cex_score_of[OF s] by (simp add: count_rep)
  have e0: "cex_score cex_truth (?comb (?l @ [int 0])) = of_nat (m + 2) / 2"
    using cex_score_of[OF s0] by (simp add: count_rep)
  have e1: "cex_score cex_truth (?comb (?l @ [int 1])) = of_nat (m + 2)"
    using cex_score_of[OF s1] by (simp add: count_rep)
  have len: "length cex_predictions = 2" by (simp add: cex_predictions_def)
  from best_combine_result[OF cex_wf cex_in_range[OF s], of cex_score cex_truth]
  obtain res where res: "best_combine cex_labels cex_score cex_predictions cex_truth ?l = Inr res"
    and r: "if \<forall>i<2. cex_score cex_truth (?comb (?l @ [int i])) \<le> cex_score cex_truth (?comb ?l)
            then res = ?l
            else \<exists>k<2. res = ?l @ [int k] \<and>
                   cex_score cex_truth (?comb ?l) < cex_score cex_truth (?comb (?l @ [int k])) \<and>
                   (\<forall>j<2. cex_score cex_truth (?comb (?l @ [int j])) \<le> cex_score cex_truth (?comb (?l @ [int k]))) \<and>
                   (\<forall>j<k. cex_score cex_truth (?comb (?l @ [int j])) < cex_score cex_truth (?comb (?l @ [int k])))"
    unfolding len by auto
  have no: "\<not> (\<forall>i<2. cex_score cex_truth (?comb (?l @ [int i])) \<le> cex_score cex_truth (?comb ?l))"
  proof
    assume a: "\<forall>i<2. cex_score cex_truth (?comb (?l @ [int i])) \<le> cex_score cex_truth (?comb ?l)"
    have "cex_score cex_truth (?comb (?l @ [int 1])) \<le> cex_score cex_truth (?comb ?l)"
      by (rule a[rule_format]) simp
    then show False unfolding e1 cur by simp
  qed
  from r no obtain k where k: "k < 2" "res = ?l @ [int k]"
    "cex_score cex_truth (?comb ?l) < cex_score cex_truth (?comb (?l @ [int k]))"
    by (auto simp only: if_False)
  have "k \<noteq> 0"
  proof
    assume "k = 0"
    with k(3) have "(of_nat (Suc m) :: rat) < of_nat (m + 2) / 2" unfolding cur using e0 by simp
    then show False by (simp add: field_simps)
  qed
  with k(1) have "k = 1" by simp
  with k(2) have "res = 0 # replicate (Suc m) 1" by (simp add: replicate_append_same)
  with res show ?thesis by simp
qed






lemma argmax_from_spec:
  assumes "ys = pre @ xs" "length pre = i" "k < i" "ys ! k = m"
    "\<forall>j<i. ys ! j \<le> m" "\<forall>j<k. ys ! j < m"
  shows "argmax_from m k i xs < length ys \<and>
         (\<forall>j<length ys. ys ! j \<le> ys ! argmax_from m k i xs) \<and>
         (\<forall>j<argmax_from m k i xs. ys ! j < ys ! argmax_from m k i xs)"
  using assms
proof (induction xs arbitrary: pre i k m)
  case Nil
  then show ?case by simp
next
  case (Cons x xs)
  have ys: "ys = (pre @ [x]) @ xs" "length (pre @ [x]) = Suc i" and yi: "ys ! i = x"
    using Cons.prems(1,2) by (simp_all add: nth_append)
  show ?case
  proof (cases "m < x")
    case True
    have a: "\<forall>j<Suc i. ys ! j \<le> x"
      using Cons.prems(5) True yi by (auto simp: less_Suc_eq intro: order.trans less_imp_le)
    have b: "\<forall>j<i. ys ! j < x"
      using Cons.prems(5) True by (auto intro: le_less_trans)
    from Cons.IH[OF ys _ yi a b] True show ?thesis by simp
  next
    case False
    then have "x \<le> m" by simp
    then have a: "\<forall>j<Suc i. ys ! j \<le> m"
      using Cons.prems(5) yi by (auto simp: less_Suc_eq)
    have "k < Suc i" using Cons.prems(3) by simp
    from Cons.IH[OF ys this Cons.prems(4) a Cons.prems(6)] False show ?thesis by simp
  qed
qed

lemma argmax_spec:
  assumes "xs \<noteq> []"
  shows "\<exists>k<length xs. argmax xs = Inr k \<and> (\<forall>j<length xs. xs ! j \<le> xs ! k) \<and>
           (\<forall>j<k. xs ! j < xs ! k)"
proof (cases xs)
  case Nil with assms show ?thesis by simp
next
  case (Cons x xs')
  have "argmax_from x 0 1 xs' < length xs \<and>
         (\<forall>j<length xs. xs ! j \<le> xs ! argmax_from x 0 1 xs') \<and>
         (\<forall>j<argmax_from x 0 1 xs'. xs ! j < xs ! argmax_from x 0 1 xs')"
    by (rule argmax_from_spec[where pre="[x]"]) (simp_all add: Cons)
  then show ?thesis by (simp add: argmax_def Cons)
qed

lemma greedy_selection_start:
  fixes score :: "'l list \<Rightarrow> 'l predictions \<Rightarrow> 's::linorder"
  assumes "pl \<noteq> []"
  shows "\<exists>k<length pl. (\<forall>j<length pl. score gt (pl ! j) \<le> score gt (pl ! k)) \<and>
           (greedy_selection labels score pl gt = None \<longleftrightarrow>
              greedy_while labels score pl gt [int k] = None) \<and>
           (\<forall>l b c. greedy_selection labels score pl gt = Some (Inr (l, b, c)) \<longrightarrow>
              greedy_while labels score pl gt [int k] = Some (Inr l) \<and> b = score gt (pl ! k))"
proof -
  from argmax_spec[of "map (score gt) pl"] assms
  obtain k where k: "k < length pl" "argmax (map (score gt) pl) = Inr k"
    "\<forall>j<length pl. score gt (pl ! j) \<le> score gt (pl ! k)"
    by auto
  have a: "greedy_selection labels score pl gt = None \<longleftrightarrow>
          greedy_while labels score pl gt [int k] = None"
    unfolding greedy_selection_def Let_def k(2)
    by (auto split: option.splits sum.splits)
  have b: "\<forall>l b c. greedy_selection labels score pl gt = Some (Inr (l, b, c)) \<longrightarrow>
              greedy_while labels score pl gt [int k] = Some (Inr l) \<and> b = score gt (pl ! k)"
    unfolding greedy_selection_def Let_def k(2) using k(1)
    by (auto split: option.splits sum.splits)
  show ?thesis
    by (rule exI[of _ k]) (use k(1,3) a b in simp)
qed

lemma best_combine_mono:
  fixes score :: "'l list \<Rightarrow> 'l predictions \<Rightarrow> 's::linorder"
  assumes wf: "well_formed labels pl nr nc" and valid: "list_all (in_range pl) l" "l \<noteq> []"
    and run: "best_combine labels score pl gt l = Inr l'"
  shows "list_all (in_range pl) l' \<and> l' \<noteq> [] \<and>
         score gt (projr (combine_models_using_probas labels pl l)) \<le>
           score gt (projr (combine_models_using_probas labels pl l')) \<and>
         (l' \<noteq> l \<longrightarrow> score gt (projr (combine_models_using_probas labels pl l)) <
           score gt (projr (combine_models_using_probas labels pl l')))"
proof -
  let ?comb = "\<lambda>is. projr (combine_models_using_probas labels pl is)"
  from best_combine_result[OF wf valid, of score gt] run
  have r: "if \<forall>i<length pl. score gt (?comb (l @ [int i])) \<le> score gt (?comb l) then l' = l
      else \<exists>k<length pl. l' = l @ [int k] \<and> score gt (?comb l) < score gt (?comb (l @ [int k])) \<and>
             (\<forall>j<length pl. score gt (?comb (l @ [int j])) \<le> score gt (?comb (l @ [int k]))) \<and>
             (\<forall>j<k. score gt (?comb (l @ [int j])) < score gt (?comb (l @ [int k])))"
    by auto
  show ?thesis
  proof (cases "\<forall>i<length pl. score gt (?comb (l @ [int i])) \<le> score gt (?comb l)")
    case True
    with r have "l' = l" by simp
    with valid show ?thesis by simp
  next
    case False
    with r obtain k where k: "k < length pl" "l' = l @ [int k]"
      "score gt (?comb l) < score gt (?comb (l @ [int k]))"
      by (auto simp only: if_False)
    then show ?thesis using valid by (simp add: in_range_nat)
  qed
qed

lemma rounds_mono:
  fixes score :: "'l list \<Rightarrow> 'l predictions \<Rightarrow> 's::linorder"
  assumes wf: "well_formed labels pl nr nc" and valid: "list_all (in_range pl) l" "l \<noteq> []"
  shows "rounds labels score pl gt m l = Inr r \<Longrightarrow>
         rounds labels score pl gt (Suc m) l = Inr r' \<Longrightarrow>
         list_all (in_range pl) r \<and> r \<noteq> [] \<and>
         score gt (projr (combine_models_using_probas labels pl r)) \<le>
           score gt (projr (combine_models_using_probas labels pl r'))"
proof (induction m arbitrary: r r')
  case 0
  then have "r = l" "best_combine labels score pl gt l = Inr r'" by (simp_all add: bind_err_def)
  with best_combine_mono[OF wf valid, of score gt r'] valid show ?case by simp
next
  case (Suc m)
  from Suc.prems(1) obtain q where q: "rounds labels score pl gt m l = Inr q"
    "best_combine labels score pl gt q = Inr r"
    by (auto simp: bind_err_def split: sum.splits)
  from Suc.IH[OF q(1) Suc.prems(1)] have v: "list_all (in_range pl) q" "q \<noteq> []" by simp_all
  from best_combine_mono[OF wf v q(2)] have v': "list_all (in_range pl) r" "r \<noteq> []" by simp_all
  from Suc.prems have "best_combine labels score pl gt r = Inr r'"
    by (simp add: bind_err_def)
  from best_combine_mono[OF wf v' this] v' show ?case by simp
qed

lemmas eval_model =
  get_next_best_single_fold_def combine_predictions_list_def nanmean_axis0_def nanmean_def
  py_get_def bind_err_def mk_list_def neg_abs_error_def ex_views_def ex_truth_def upt_rec

lemma ex_round1:
  "get_next_best_single_fold mk_list (\<lambda>p. p) neg_abs_error ex_views ex_truth [1] =
     Inr ([1, 0], - 1 / 2)"
  by (simp add: eval_model)

lemma ex_round2:
  "get_next_best_single_fold mk_list (\<lambda>p. p) neg_abs_error ex_views ex_truth [1, 0] =
     Inr ([1, 0, 1], 0)"
  by (simp add: eval_model)

lemma ex_round3:
  "get_next_best_single_fold mk_list (\<lambda>p. p) neg_abs_error ex_views ex_truth [1, 0, 1] =
     Inr ([1, 0, 1], 0)"
  by (simp add: eval_model)

lemma ex_tie:
  "get_next_best_single_fold mk_list (\<lambda>p. p) neg_abs_error [[Some 3], [Some 3]] ex_truth [0] =
     Inr ([0], - 1)"
  by (simp add: eval_model)

lemmas eval_generic =
  best_combine_def combine_models_using_probas_def mean_axis0_def np_mean_def n_rows_def
  get_y_pred_array_def np_argmax_def argmax_def
  py_get_def bind_err_def cex_labels_def cex_predictions_def cex_truth_def ex_score_def upt_rec

lemma ex_stop:
  "best_combine cex_labels ex_score cex_predictions cex_truth [0] = Inr [0]"
  by (simp add: eval_generic)

lemma ex_selection:
  "greedy_selection cex_labels ex_score cex_predictions cex_truth = Some (Inr ([0], 1, 1))"
proof -
  have "greedy_while cex_labels ex_score cex_predictions cex_truth [0] = Some (Inr [0])"
    by (rule greedy_while_stop[OF ex_stop]) simp
  moreover have "argmax (map (ex_score cex_truth) cex_predictions) = Inr 0"
    by (simp add: argmax_def ex_score_def cex_predictions_def)
  moreover have "combine_models_using_probas cex_labels cex_predictions [0] =
      Inr ([0], \<lparr>n_cols = 2, cells = [[Some 1, Some 0]]\<rparr>)"
    by (simp add: eval_generic)
  ultimately show ?thesis
    unfolding greedy_selection_def Let_def
    by (simp add: ex_score_def cex_predictions_def)
qed

text \<open>
  Claim C2. One round, on a list of predictions and a current index list on which the
  combiner does not raise, returns the index list unchanged when no extension by one index
  scores strictly better than the current combination (a tie keeps the list), and otherwise
  the list with one index appended: the first index whose extension has the best score,
  which is strictly better than the current one. This holds for the round of model.py and
  for the one of generic.py. An index already in the list can be appended again. The outer
  loop starts from the index of a best-scoring single model, goes on after a round that
  appended, stops at the first round that did not, and what it returns is a list that a
  further round leaves unchanged.
\<close>

theorem greedy_round:
  fixes score :: "'p \<Rightarrow> 'p \<Rightarrow> 's::linorder" and mk :: "ndarray \<Rightarrow> 'p"
    and v :: "'p \<Rightarrow> val list" and pl :: "'p list" and t :: 'p and bil :: "int list"
    and gscore :: "'l list \<Rightarrow> 'l predictions \<Rightarrow> 'r::linorder" and labels :: "'l list"
    and gpl :: "'l predictions list" and gt :: "'l list" and gbil :: "int list"
  defines "comb \<equiv> \<lambda>is. projr (combine_predictions_list mk v pl (Some is))"
  defines "cur \<equiv> score t (comb bil)" and "ext \<equiv> \<lambda>i. score t (comb (bil @ [int i]))"
  defines "gcomb \<equiv> \<lambda>is. projr (combine_models_using_probas labels gpl is)"
  defines "gcur \<equiv> gscore gt (gcomb gbil)" and "gext \<equiv> \<lambda>i. gscore gt (gcomb (gbil @ [int i]))"
  shows
    "(list_all (in_range pl) bil \<and> bil \<noteq> [] \<and> list_all (\<lambda>p. length (v p) = m) pl \<longrightarrow>
       (\<exists>res sc. get_next_best_single_fold mk v score pl t bil = Inr (res, sc) \<and>
          (if \<forall>i<length pl. ext i \<le> cur then res = bil \<and> sc = cur
           else \<exists>k<length pl. res = bil @ [int k] \<and> sc = ext k \<and> cur < ext k \<and>
                  (\<forall>j<length pl. ext j \<le> ext k) \<and> (\<forall>j<k. ext j < ext k)))) \<and>
     (well_formed labels gpl nr nc \<and> list_all (in_range gpl) gbil \<and> gbil \<noteq> [] \<longrightarrow>
       (\<exists>res. best_combine labels gscore gpl gt gbil = Inr res \<and>
          (if \<forall>i<length gpl. gext i \<le> gcur then res = gbil
           else \<exists>k<length gpl. res = gbil @ [int k] \<and> gcur < gext k \<and>
                  (\<forall>j<length gpl. gext j \<le> gext k) \<and> (\<forall>j<k. gext j < gext k)))) \<and>
     get_next_best_single_fold mk_list (\<lambda>p. p) neg_abs_error ex_views ex_truth [1, 0] =
       Inr ([1, 0, 1], 0) \<and>
     (gpl \<noteq> [] \<longrightarrow>
       (\<exists>k<length gpl. (\<forall>j<length gpl. gscore gt (gpl ! j) \<le> gscore gt (gpl ! k)) \<and>
           (greedy_selection labels gscore gpl gt = None \<longleftrightarrow>
              greedy_while labels gscore gpl gt [int k] = None) \<and>
           (\<forall>l b c. greedy_selection labels gscore gpl gt = Some (Inr (l, b, c)) \<longrightarrow>
              greedy_while labels gscore gpl gt [int k] = Some (Inr l) \<and>
              b = gscore gt (gpl ! k)))) \<and>
     (\<forall>l l'. best_combine labels gscore gpl gt l = Inr l' \<and> length l' = length l \<longrightarrow>
        greedy_while labels gscore gpl gt l = Some (Inr l)) \<and>
     (\<forall>l l'. best_combine labels gscore gpl gt l = Inr l' \<and> length l' \<noteq> length l \<longrightarrow>
        greedy_while labels gscore gpl gt l = greedy_while labels gscore gpl gt l') \<and>
     (\<forall>l r. greedy_while labels gscore gpl gt l = Some (Inr r) \<longrightarrow>
        best_combine labels gscore gpl gt r = Inr r)"
proof (intro conjI impI allI)
  assume a: "list_all (in_range pl) bil \<and> bil \<noteq> [] \<and> list_all (\<lambda>p. length (v p) = m) pl"
  then have "list_all (in_range pl) bil" "bil \<noteq> []" "list_all (\<lambda>p. length (v p) = m) pl"
    by simp_all
  from get_next_best_single_fold_result[OF this, of mk score t]
  show "\<exists>res sc. get_next_best_single_fold mk v score pl t bil = Inr (res, sc) \<and>
          (if \<forall>i<length pl. ext i \<le> cur then res = bil \<and> sc = cur
           else \<exists>k<length pl. res = bil @ [int k] \<and> sc = ext k \<and> cur < ext k \<and>
                  (\<forall>j<length pl. ext j \<le> ext k) \<and> (\<forall>j<k. ext j < ext k))"
    unfolding comb_def cur_def ext_def .
next
  assume "well_formed labels gpl nr nc \<and> list_all (in_range gpl) gbil \<and> gbil \<noteq> []"
  then have "well_formed labels gpl nr nc" "list_all (in_range gpl) gbil" "gbil \<noteq> []"
    by simp_all
  from best_combine_result[OF this, of gscore gt]
  show "\<exists>res. best_combine labels gscore gpl gt gbil = Inr res \<and>
          (if \<forall>i<length gpl. gext i \<le> gcur then res = gbil
           else \<exists>k<length gpl. res = gbil @ [int k] \<and> gcur < gext k \<and>
                  (\<forall>j<length gpl. gext j \<le> gext k) \<and> (\<forall>j<k. gext j < gext k))"
    unfolding gcomb_def gcur_def gext_def .
next
  show "get_next_best_single_fold mk_list (\<lambda>p. p) neg_abs_error ex_views ex_truth [1, 0] =
       Inr ([1, 0, 1], 0)"
    by (rule ex_round2)
next
  assume "gpl \<noteq> []"
  from greedy_selection_start[OF this, of gscore gt labels]
  show "\<exists>k<length gpl. (\<forall>j<length gpl. gscore gt (gpl ! j) \<le> gscore gt (gpl ! k)) \<and>
           (greedy_selection labels gscore gpl gt = None \<longleftrightarrow>
              greedy_while labels gscore gpl gt [int k] = None) \<and>
           (\<forall>l b c. greedy_selection labels gscore gpl gt = Some (Inr (l, b, c)) \<longrightarrow>
              greedy_while labels gscore gpl gt [int k] = Some (Inr l) \<and>
              b = gscore gt (gpl ! k))" .
next
  fix l l' assume "best_combine labels gscore gpl gt l = Inr l' \<and> length l' = length l"
  then show "greedy_while labels gscore gpl gt l = Some (Inr l)"
    using greedy_while_stop by blast
next
  fix l l' assume "best_combine labels gscore gpl gt l = Inr l' \<and> length l' \<noteq> length l"
  then show "greedy_while labels gscore gpl gt l = greedy_while labels gscore gpl gt l'"
    using greedy_while_continue by blast
next
  fix l r assume "greedy_while labels gscore gpl gt l = Some (Inr r)"
  from greedy_while_fixpoint_aux[OF this] show "best_combine labels gscore gpl gt r = Inr r"
    by simp
qed

theorem greedy_round_witness:
  "get_next_best_single_fold mk_list (\<lambda>p. p) neg_abs_error ex_views ex_truth [1] =
     Inr ([1, 0], - 1 / 2) \<and>
   get_next_best_single_fold mk_list (\<lambda>p. p) neg_abs_error ex_views ex_truth [1, 0, 1] =
     Inr ([1, 0, 1], 0) \<and>
   get_next_best_single_fold mk_list (\<lambda>p. p) neg_abs_error [[Some 3], [Some 3]] ex_truth [0] =
     Inr ([0], - 1) \<and>
   well_formed cex_labels cex_predictions 1 2 \<and>
   best_combine cex_labels ex_score cex_predictions cex_truth [0] = Inr [0] \<and>
   greedy_while cex_labels ex_score cex_predictions cex_truth [0] = Some (Inr [0]) \<and>
   greedy_selection cex_labels ex_score cex_predictions cex_truth = Some (Inr ([0], 1, 1)) \<and>
   best_combine cex_labels cex_score cex_predictions cex_truth [0] = Inr [0, 1] \<and>
   greedy_while cex_labels cex_score cex_predictions cex_truth [0] =
     greedy_while cex_labels cex_score cex_predictions cex_truth [0, 1]"
proof -
  note t = greedy_round[of ex_views "[1]" "\<lambda>p. p" 1 mk_list neg_abs_error ex_truth
      cex_labels cex_predictions 1 2 "[0]" ex_score cex_truth]
  note u = greedy_round[of ex_views "[1]" "\<lambda>p. p" 1 mk_list neg_abs_error ex_truth
      cex_labels cex_predictions 1 2 "[0]" cex_score cex_truth]
  have r0: "best_combine cex_labels cex_score cex_predictions cex_truth [0] = Inr [0, 1]"
    using cex_round[of 0] by simp
  note stop = t[THEN conjunct2, THEN conjunct2, THEN conjunct2, THEN conjunct2, THEN conjunct1,
      rule_format]
  note cont = u[THEN conjunct2, THEN conjunct2, THEN conjunct2, THEN conjunct2, THEN conjunct2,
      THEN conjunct1, rule_format]
  have 1: "greedy_while cex_labels ex_score cex_predictions cex_truth [0] = Some (Inr [0])"
    by (rule stop[of "[0]" "[0]"]) (simp add: ex_stop)
  have 2: "greedy_while cex_labels cex_score cex_predictions cex_truth [0] =
     greedy_while cex_labels cex_score cex_predictions cex_truth [0, 1]"
    by (rule cont[of "[0]" "[0, 1]"]) (simp add: r0)
  show ?thesis
    by (intro conjI) (rule ex_round1 ex_round3 ex_tie cex_wf ex_stop 1 ex_selection r0 2)+
qed


section \<open>Calibration on two halves\<close>

lemma py_at_pos: "py_at xs i = xs ! py_pos (length xs) i"
  by (simp add: py_at_def py_pos_def)

lemma py_pos_lt: "in_range xs i \<Longrightarrow> py_pos (length xs) i < length xs"
  by (auto simp: in_range_def py_pos_def)

lemma set_rows_Cons:
  "set_rows a (i # idx) (r # rs) =
     (if in_range a i then set_rows (a[py_pos (length a) i := r]) idx rs else Inl IndexError)"
  by (simp add: py_pos_def)

lemma in_range_update: "in_range (a[p := r]) i = in_range a i"
  by (simp add: in_range_def)

lemma set_rows_length:
  "set_rows a idx rs = Inr a' \<Longrightarrow>
     length a' = length a \<and> length rs = length idx \<and> list_all (in_range a) idx"
proof (induction a idx rs rule: set_rows.induct)
  case (2 a i idx r rs)
  show ?case
  proof (cases "in_range a i")
    case True
    with 2 show ?thesis by (simp add: in_range_update)
  next
    case False
    with 2(2) show ?thesis by simp
  qed
qed simp_all

lemma set_rows_frame:
  "set_rows a idx rs = Inr a' \<Longrightarrow> p \<notin> py_pos (length a) ` set idx \<Longrightarrow> a' ! p = a ! p"
proof (induction a idx rs rule: set_rows.induct)
  case (2 a i idx r rs)
  from 2(2) have ir: "in_range a i" by (auto split: if_splits)
  from 2(2) ir have run: "set_rows (a[py_pos (length a) i := r]) idx rs = Inr a'"
    by (simp add: py_pos_def)
  from 2(3) have np: "p \<noteq> py_pos (length a) i" "p \<notin> py_pos (length a) ` set idx" by auto
  have "a' ! p = (a[py_pos (length a) i := r]) ! p"
    using "2.IH"[OF ir] run np(2) by (simp add: py_pos_def)
  then show ?case using np(1) by simp
qed simp_all

lemma set_rows_step:
  assumes "set_rows a (i # idx) rs = Inr a'"
  obtains r rs' where "rs = r # rs'" "in_range a i"
    "set_rows (a[py_pos (length a) i := r]) idx rs' = Inr a'"
proof (cases rs)
  case Nil with assms show ?thesis by simp
next
  case (Cons r rs')
  with assms have "in_range a i" by (auto split: if_splits)
  with assms Cons that show ?thesis by (simp add: set_rows_Cons del: set_rows.simps)
qed

lemma set_rows_agree:
  "set_rows a idx rs = Inr a' \<Longrightarrow> set_rows b idx rs = Inr b' \<Longrightarrow> length a = length b \<Longrightarrow>
     p < length a \<Longrightarrow> p \<in> py_pos (length a) ` set idx \<or> a ! p = b ! p \<Longrightarrow> a' ! p = b' ! p"
proof (induction idx arbitrary: a b rs)
  case Nil
  then show ?case by (cases rs) simp_all
next
  case (Cons i idx)
  let ?q = "py_pos (length a) i"
  from set_rows_step[OF Cons.prems(1)] obtain r rs' where rs: "rs = r # rs'"
    and runa: "set_rows (a[?q := r]) idx rs' = Inr a'" by blast
  from set_rows_step[OF Cons.prems(2)] rs Cons.prems(3)
  have runb: "set_rows (b[?q := r]) idx rs' = Inr b'" by auto
  have c: "p \<in> py_pos (length (a[?q := r])) ` set idx \<or> (a[?q := r]) ! p = (b[?q := r]) ! p"
  proof (cases "p = ?q")
    case True
    then show ?thesis using Cons.prems(3,4) by simp
  next
    case False
    with Cons.prems(5) show ?thesis by auto
  qed
  show ?case
    by (rule Cons.IH[OF runa runb _ _ c]) (use Cons.prems(3,4) in simp_all)
qed

lemma set_rows_written:
  "set_rows a idx rs = Inr a' \<Longrightarrow> distinct (map (py_pos (length a)) idx) \<Longrightarrow> k < length idx \<Longrightarrow>
     a' ! py_pos (length a) (idx ! k) = rs ! k"
proof (induction idx arbitrary: a rs k)
  case Nil
  then show ?case by simp
next
  case (Cons i idx)
  let ?q = "py_pos (length a) i"
  from set_rows_step[OF Cons.prems(1)] obtain r rs' where rs: "rs = r # rs'"
    and ir: "in_range a i"
    and run: "set_rows (a[?q := r]) idx rs' = Inr a'" by blast
  from Cons.prems(2) have d: "?q \<notin> py_pos (length a) ` set idx"
    "distinct (map (py_pos (length a)) idx)"
    by auto
  show ?case
  proof (cases k)
    case 0
    have "a' ! ?q = (a[?q := r]) ! ?q"
      using set_rows_frame[OF run] d(1) by simp
    then show ?thesis using 0 py_pos_lt[OF ir] rs by simp
  next
    case (Suc j)
    with Cons.prems(3) have j: "j < length idx" by simp
    have "a' ! py_pos (length (a[?q := r])) (idx ! j) = rs' ! j"
      by (rule Cons.IH[OF run _ j]) (use d(2) in simp)
    then show ?thesis using Suc rs by simp
  qed
qed

lemma calibrate_fold_alt:
  "calibrate_fold iso_fit iso_predict P gt (tr, te) c =
     bind_err (fold_output iso_fit iso_predict P gt tr te)
       (\<lambda>p. bind_err (set_rows (cells c) te (cells p)) (\<lambda>rs. Inr (c\<lparr>cells := rs\<rparr>)))"
  by (simp add: fold_output_def bind_err_def split: sum.splits)

lemma fold_output_cong:
  "take_items gt1 tr = take_items gt2 tr \<Longrightarrow>
     fold_output iso_fit iso_predict P gt1 tr te = fold_output iso_fit iso_predict P gt2 tr te"
  by (simp add: fold_output_def)

lemma calibrate_run:
  assumes "split gt = Inr (A, B)"
    and "calibrate split iso_fit iso_predict garbage P gt = Inr c"
  obtains p q c0 rs where
    "fold_output iso_fit iso_predict P gt A B = Inr p"
    "fold_output iso_fit iso_predict P gt B A = Inr q"
    "length c0 = n_rows P"
    "set_rows c0 B (cells p) = Inr rs"
    "set_rows rs A (cells q) = Inr (cells c)"
proof -
  let ?c0 = "\<lparr>n_cols = n_cols P,
              cells = map (\<lambda>i. map (garbage i) [0..<n_cols P]) [0..<n_rows P]\<rparr>"
  from assms(2) obtain d where d: "calibrate_fold iso_fit iso_predict P gt (A, B) ?c0 = Inr d"
    and c: "calibrate_fold iso_fit iso_predict P gt (B, A) d = Inr c"
    unfolding calibrate_def assms(1) Let_def
    by (auto simp: bind_err_def simp del: calibrate_fold.simps split: sum.splits)
  from d obtain p rs where p: "fold_output iso_fit iso_predict P gt A B = Inr p"
    and rs: "set_rows (cells ?c0) B (cells p) = Inr rs" and d': "d = ?c0\<lparr>cells := rs\<rparr>"
    unfolding calibrate_fold_alt by (auto simp: bind_err_def split: sum.splits)
  from c obtain q rs2 where q: "fold_output iso_fit iso_predict P gt B A = Inr q"
    and rs2: "set_rows (cells d) A (cells q) = Inr rs2" and c': "c = d\<lparr>cells := rs2\<rparr>"
    unfolding calibrate_fold_alt by (auto simp: bind_err_def split: sum.splits)
  have l0: "length (cells ?c0) = n_rows P" by simp
  have 1: "set_rows rs A (cells q) = Inr (cells c)" using rs2 d' c' by simp
  from that[OF p q l0 rs 1] show ?thesis .
qed

text \<open>
  Claim C5. Take two runs of \<open>calibrate\<close> on one probability array that get the same
  split into the halves \<open>A\<close> and \<open>B\<close>, with no row in both, and that both return. When the
  labels at \<open>A\<close> are the same in the two runs, the rows at \<open>B\<close> of the two results are the
  same, whatever the labels at \<open>B\<close> are; and when the labels at \<open>B\<close> are the same, so are
  the rows at \<open>A\<close>. The rows at \<open>B\<close> are the output, on the rows \<open>B\<close> of the array, of the
  calibrator fitted on the rows and labels at \<open>A\<close>.
\<close>

theorem calibrate_no_leakage:
  fixes gt1 gt2 :: "'l::linorder list"
  assumes split: "split gt1 = Inr (A, B)" "split gt2 = Inr (A, B)"
    and disj: "py_pos (n_rows P) ` set A \<inter> py_pos (n_rows P) ` set B = {}"
    and r1: "calibrate split iso_fit iso_predict garbage1 P gt1 = Inr c1"
    and r2: "calibrate split iso_fit iso_predict garbage2 P gt2 = Inr c2"
  shows "(take_items gt1 A = take_items gt2 A \<longrightarrow>
           (\<forall>i\<in>set B. py_at (cells c1) i = py_at (cells c2) i)) \<and>
         (take_items gt1 B = take_items gt2 B \<longrightarrow>
           (\<forall>i\<in>set A. py_at (cells c1) i = py_at (cells c2) i)) \<and>
         (\<exists>p. fold_output iso_fit iso_predict P gt1 A B = Inr p \<and>
              (distinct (map (py_pos (n_rows P)) B) \<longrightarrow>
                 (\<forall>k<length B. py_at (cells c1) (B ! k) = cells p ! k)))"
proof -
  let ?n = "n_rows P"
  from calibrate_run[OF split(1) r1] obtain p1 q1 a1 rs1 where
    p1: "fold_output iso_fit iso_predict P gt1 A B = Inr p1"
    and q1: "fold_output iso_fit iso_predict P gt1 B A = Inr q1"
    and l1: "length a1 = ?n" and s1: "set_rows a1 B (cells p1) = Inr rs1"
    and t1: "set_rows rs1 A (cells q1) = Inr (cells c1)" by blast
  from calibrate_run[OF split(2) r2] obtain p2 q2 a2 rs2 where
    p2: "fold_output iso_fit iso_predict P gt2 A B = Inr p2"
    and q2: "fold_output iso_fit iso_predict P gt2 B A = Inr q2"
    and l2: "length a2 = ?n" and s2: "set_rows a2 B (cells p2) = Inr rs2"
    and t2: "set_rows rs2 A (cells q2) = Inr (cells c2)" by blast
  have lr1: "length rs1 = ?n" "list_all (in_range a1) B"
    using set_rows_length[OF s1] l1 by simp_all
  have lr2: "length rs2 = ?n" using set_rows_length[OF s2] l2 by simp
  have lc1: "length (cells c1) = ?n" "list_all (in_range rs1) A"
    using set_rows_length[OF t1] lr1 by simp_all
  have lc2: "length (cells c2) = ?n" using set_rows_length[OF t2] lr2 by simp
  have posB: "py_pos ?n i < ?n" "py_pos ?n i \<notin> py_pos ?n ` set A" if "i \<in> set B" for i
  proof -
    from that lr1(2) have "in_range a1 i" by (simp add: list_all_iff)
    from py_pos_lt[OF this] show "py_pos ?n i < ?n" using l1 by simp
    from that disj show "py_pos ?n i \<notin> py_pos ?n ` set A" by auto
  qed
  have posA: "py_pos ?n i < ?n" if "i \<in> set A" for i
  proof -
    from that lc1(2) have "in_range rs1 i" by (simp add: list_all_iff)
    from py_pos_lt[OF this] show ?thesis using lr1(1) by simp
  qed
  have keep1: "cells c1 ! py_pos ?n i = rs1 ! py_pos ?n i" if "i \<in> set B" for i
    using set_rows_frame[OF t1, of "py_pos ?n i"] posB(2)[OF that] lr1(1) by simp
  have keep2: "cells c2 ! py_pos ?n i = rs2 ! py_pos ?n i" if "i \<in> set B" for i
    using set_rows_frame[OF t2, of "py_pos ?n i"] posB(2)[OF that] lr2 by simp
  have a: "\<forall>i\<in>set B. py_at (cells c1) i = py_at (cells c2) i"
    if eq: "take_items gt1 A = take_items gt2 A"
  proof
    fix i assume i: "i \<in> set B"
    from fold_output_cong[OF eq, of iso_fit iso_predict P B] p1 p2 have pp: "p2 = p1" by simp
    have "rs1 ! py_pos ?n i = rs2 ! py_pos ?n i"
      using set_rows_agree[OF s1 s2[unfolded pp], of "py_pos ?n i"] l1 l2 posB(1)[OF i] i
      by simp
    then show "py_at (cells c1) i = py_at (cells c2) i"
      unfolding py_at_pos lc1(1) lc2 keep1[OF i] keep2[OF i] .
  qed
  have b: "\<forall>i\<in>set A. py_at (cells c1) i = py_at (cells c2) i"
    if eq: "take_items gt1 B = take_items gt2 B"
  proof
    fix i assume i: "i \<in> set A"
    from fold_output_cong[OF eq, of iso_fit iso_predict P A] q1 q2 have qq: "q2 = q1" by simp
    have "cells c1 ! py_pos ?n i = cells c2 ! py_pos ?n i"
      using set_rows_agree[OF t1 t2[unfolded qq], of "py_pos ?n i"] lr1(1) lr2 posA[OF i] i
      by simp
    then show "py_at (cells c1) i = py_at (cells c2) i"
      unfolding py_at_pos lc1(1) lc2 .
  qed
  have c: "\<forall>k<length B. py_at (cells c1) (B ! k) = cells p1 ! k"
    if d: "distinct (map (py_pos ?n) B)"
  proof (intro allI impI)
    fix k assume k: "k < length B"
    then have "B ! k \<in> set B" by simp
    from keep1[OF this] set_rows_written[OF s1 _ k] d l1
    show "py_at (cells c1) (B ! k) = cells p1 ! k"
      unfolding py_at_pos lc1(1) by simp
  qed
  show ?thesis using a b c p1 by blast
qed

lemmas eval_cal = calibrate_def take_rows_def take_items_def fit_def predict_def
  in_range_def py_get_def bind_err_def column_def n_rows_def np_sum_def
  half_split_def step_fit_def step_predict_def four_probas_def upt_rec

lemma run_one:
  "calibrate half_split step_fit step_predict (\<lambda>i j. None) four_probas [0::int, 1, 1, 0] =
     Inr \<lparr>n_cols = 2, cells = [[Some (1 / 2), Some (1 / 2)], [Some 1, Some 0],
                                [Some (1 / 2), Some (1 / 2)], [Some 0, Some 1]]\<rparr>"
  by (simp add: eval_cal)

lemma run_two:
  "calibrate half_split step_fit step_predict (\<lambda>i j. Some 5) four_probas [0::int, 0, 1, 1] =
     Inr \<lparr>n_cols = 2, cells = [[None, None], [Some 1, Some 0], [None, None], [Some 0, Some 1]]\<rparr>"
  by (simp add: eval_cal)

theorem calibrate_no_leakage_witness:
  "half_split [0::int, 1, 1, 0] = Inr ([0, 2], [1, 3]) \<and>
   half_split [0::int, 0, 1, 1] = Inr ([0, 2], [1, 3]) \<and>
   take_items [0::int, 1, 1, 0] [0, 2] = take_items [0::int, 0, 1, 1] [0, 2] \<and>
   take_items [0::int, 1, 1, 0] [1, 3] \<noteq> take_items [0::int, 0, 1, 1] [1, 3] \<and>
   calibrate half_split step_fit step_predict (\<lambda>i j. None) four_probas [0::int, 1, 1, 0] =
     Inr \<lparr>n_cols = 2, cells = [[Some (1 / 2), Some (1 / 2)], [Some 1, Some 0],
                                [Some (1 / 2), Some (1 / 2)], [Some 0, Some 1]]\<rparr> \<and>
   calibrate half_split step_fit step_predict (\<lambda>i j. Some 5) four_probas [0::int, 0, 1, 1] =
     Inr \<lparr>n_cols = 2, cells = [[None, None], [Some 1, Some 0], [None, None], [Some 0, Some 1]]\<rparr> \<and>
   py_at [[Some (1 / 2), Some (1 / 2)], [Some 1, Some 0], [Some (1 / 2), Some (1 / 2)],
          [Some 0, Some (1::rat)]] 1 =
     py_at [[None, None], [Some 1, Some 0], [None, None], [Some 0, Some (1::rat)]] 1 \<and>
   py_at [[Some (1 / 2), Some (1 / 2)], [Some 1, Some 0], [Some (1 / 2), Some (1 / 2)],
          [Some 0, Some (1::rat)]] 3 =
     py_at [[None, None], [Some 1, Some 0], [None, None], [Some 0, Some (1::rat)]] 3"
proof -
  have s1: "half_split [0::int, 1, 1, 0] = Inr ([0, 2], [1, 3])"
    and s2: "half_split [0::int, 0, 1, 1] = Inr ([0, 2], [1, 3])"
    by (simp_all add: half_split_def)
  have d: "py_pos (n_rows four_probas) ` set [0, 2] \<inter> py_pos (n_rows four_probas) ` set [1, 3] = {}"
    by (simp add: py_pos_def)
  have e: "take_items [0::int, 1, 1, 0] [0, 2] = take_items [0::int, 0, 1, 1] [0, 2]"
    and n: "take_items [0::int, 1, 1, 0] [1, 3] \<noteq> take_items [0::int, 0, 1, 1] [1, 3]"
    by (simp_all add: take_items_def py_get_def)
  note t = calibrate_no_leakage[OF s1 s2 d run_one run_two, THEN conjunct1, rule_format, OF e]
  have b1: "py_at [[Some (1 / 2), Some (1 / 2)], [Some 1, Some 0], [Some (1 / 2), Some (1 / 2)],
          [Some 0, Some (1::rat)]] 1 =
     py_at [[None, None], [Some 1, Some 0], [None, None], [Some 0, Some (1::rat)]] 1"
    using t[of 1] by simp
  have b3: "py_at [[Some (1 / 2), Some (1 / 2)], [Some 1, Some 0], [Some (1 / 2), Some (1 / 2)],
          [Some 0, Some (1::rat)]] 3 =
     py_at [[None, None], [Some 1, Some 0], [None, None], [Some 0, Some (1::rat)]] 3"
    using t[of 3] by simp
  show ?thesis
    by (intro conjI) (rule s1 s2 e n run_one run_two b1 b3)+
qed

lemma map_err_fail:
  "x \<in> set xs \<Longrightarrow> f x = Inl e \<Longrightarrow> \<exists>e'. map_err f xs = Inl e'"
  by (induction xs) (auto split: sum.splits)

lemma map_err_fail_index:
  "x \<in> set xs \<Longrightarrow> f x = Inl IndexError \<Longrightarrow> \<forall>y\<in>set xs. \<forall>e. f y = Inl e \<longrightarrow> e = IndexError \<Longrightarrow>
     map_err f xs = Inl IndexError"
proof (induction xs)
  case Nil
  then show ?case by simp
next
  case (Cons a xs)
  show ?case
  proof (cases "f a")
    case (Inl e)
    with Cons.prems(3) have "e = IndexError" by simp
    with Inl show ?thesis by simp
  next
    case (Inr b)
    with Cons.prems(1,2) have "x \<in> set xs" by auto
    from Cons.IH[OF this Cons.prems(2)] Cons.prems(3) have "map_err f xs = Inl IndexError" by simp
    with Inr show ?thesis by simp
  qed
qed

lemma fit_absent_class:
  fixes y :: "'l::linorder list"
  assumes "length (remdups y) < n_cols X"
  shows "(\<exists>e. fit iso_fit X y = Inl e) \<and>
         ((\<forall>col ind. \<exists>c. iso_fit col ind = Inr c) \<longrightarrow> fit iso_fit X y = Inl IndexError)"
proof -
  let ?labels = "sort (remdups y)"
  let ?f = "\<lambda>class_index.
           bind_err (py_get ?labels (int class_index)) (\<lambda>label.
             if length y \<noteq> n_rows X then Inl IndexError
             else iso_fit (column X class_index) (map (\<lambda>yi. if yi = label then 1 else 0) y))"
  let ?L = "length (remdups y)"
  have mem: "?L \<in> set [0..<n_cols X]" using assms by simp
  have bad: "?f ?L = Inl IndexError" by (simp add: py_get_def bind_err_def)
  have fit: "fit iso_fit X y = map_err ?f [0..<n_cols X]" by (simp add: fit_def)
  from map_err_fail[where f="?f", OF mem bad] have 1: "\<exists>e. fit iso_fit X y = Inl e" unfolding fit .
  have 2: "fit iso_fit X y = Inl IndexError" if tot: "\<forall>col ind. \<exists>c. iso_fit col ind = Inr c"
  proof -
    have "\<forall>j\<in>set [0..<n_cols X]. \<forall>e. ?f j = Inl e \<longrightarrow> e = IndexError"
    proof (intro ballI allI impI)
      fix j e assume h: "?f j = Inl e"
      show "e = IndexError"
      proof (cases "py_get ?labels (int j)")
        case (Inl e')
        then have "e' = IndexError" by (auto simp: py_get_def split: if_splits)
        with h Inl show ?thesis by (simp add: bind_err_def)
      next
        case (Inr label)
        from tot obtain c where
          "iso_fit (column X j) (map (\<lambda>yi. if yi = label then 1 else 0) y) = Inr c"
          by blast
        with h Inr show ?thesis by (simp add: bind_err_def split: if_splits)
      qed
    qed
    from map_err_fail_index[where f="?f", OF mem bad this] show ?thesis unfolding fit .
  qed
  from 1 2 show ?thesis by blast
qed

lemma fold_output_absent:
  fixes gt :: "'l::linorder list"
  assumes "take_items gt tr = Inr y" "length (remdups y) < n_cols P"
  shows "\<exists>e. fold_output iso_fit iso_predict P gt tr te = Inl e"
proof (cases "take_rows P tr")
  case (Inl e)
  then show ?thesis by (simp add: fold_output_def bind_err_def)
next
  case (Inr X)
  then have "n_cols X = n_cols P" by (auto simp: take_rows_def bind_err_def split: sum.splits)
  with fit_absent_class[of y X iso_fit] assms(2) obtain e where "fit iso_fit X y = Inl e" by auto
  then show ?thesis using Inr assms(1) by (simp add: fold_output_def bind_err_def)
qed

text \<open>
  Claim C6, as the code has it. When the labels of a half have fewer distinct values than
  the array has columns (a class is absent from that half), \<open>fit\<close> raises: the lookup
  \<open>labels[class_index]\<close> runs past the labels present, an \<open>IndexError\<close> unless the
  isotonic regression has raised before. \<open>calibrate\<close> then raises too, whichever half
  lacks the class; no calibrator falls back to a class prior.
\<close>

theorem absent_class_fails:
  fixes gt :: "'l::linorder list"
  shows "(length (remdups y) < n_cols X \<longrightarrow>
           (\<exists>e. fit iso_fit X y = Inl e) \<and>
           ((\<forall>col ind. \<exists>c. iso_fit col ind = Inr c) \<longrightarrow> fit iso_fit X y = Inl IndexError)) \<and>
         (split gt = Inr (A, B) \<and> take_items gt A = Inr yA \<and> take_items gt B = Inr yB \<and>
          (length (remdups yA) < n_cols P \<or> length (remdups yB) < n_cols P) \<longrightarrow>
           (\<exists>e. calibrate split iso_fit iso_predict garbage P gt = Inl e))"
proof (intro conjI impI)
  assume "length (remdups y) < n_cols X"
  from fit_absent_class[OF this, of iso_fit]
  show "\<exists>e. fit iso_fit X y = Inl e"
    and "\<forall>col ind. \<exists>c. iso_fit col ind = Inr c \<Longrightarrow> fit iso_fit X y = Inl IndexError"
    by simp_all
next
  assume a: "split gt = Inr (A, B) \<and> take_items gt A = Inr yA \<and> take_items gt B = Inr yB \<and>
          (length (remdups yA) < n_cols P \<or> length (remdups yB) < n_cols P)"
  show "\<exists>e. calibrate split iso_fit iso_predict garbage P gt = Inl e"
  proof (cases "calibrate split iso_fit iso_predict garbage P gt")
    case (Inl e)
    then show ?thesis by blast
  next
    case (Inr c)
    from a have s: "split gt = Inr (A, B)" by simp
    from calibrate_run[OF s Inr] obtain p q where
      p: "fold_output iso_fit iso_predict P gt A B = Inr p"
      and q: "fold_output iso_fit iso_predict P gt B A = Inr q" by blast
    from a consider "length (remdups yA) < n_cols P" | "length (remdups yB) < n_cols P" by blast
    then show ?thesis
    proof cases
      case 1
      with fold_output_absent[of gt A yA P iso_fit iso_predict B] a p show ?thesis by auto
    next
      case 2
      with fold_output_absent[of gt B yB P iso_fit iso_predict A] a q show ?thesis by auto
    qed
  qed
qed

theorem absent_class_fails_witness:
  "length (remdups [0::int, 0]) < n_cols \<lparr>n_cols = 2, cells = [[Some 1, Some 0], [Some 0, Some 1]]\<rparr> \<and>
   fit step_fit \<lparr>n_cols = 2, cells = [[Some 1, Some 0], [Some 0, Some 1]]\<rparr> [0::int, 0] =
     Inl IndexError \<and>
   take_items [0::int, 1, 0, 0] [0, 2] = Inr [0, 0] \<and>
   (\<exists>e. calibrate half_split step_fit step_predict (\<lambda>i j. None) four_probas [0::int, 1, 0, 0] =
        Inl e)"
proof -
  let ?X = "\<lparr>n_cols = 2, cells = [[Some 1, Some 0], [Some 0, Some (1::rat)]]\<rparr>"
  have l: "length (remdups [0::int, 0]) < n_cols ?X" by simp
  have tot: "\<And>col ind. \<exists>c. step_fit col ind = Inr c" by (simp add: step_fit_def)
  note f = absent_class_fails[of "[0::int, 0]" ?X step_fit, THEN conjunct1, rule_format, OF l,
      THEN conjunct2, rule_format, OF tot]
  have tA: "take_items [0::int, 1, 0, 0] [0, 2] = Inr [0, 0]"
    and tB: "take_items [0::int, 1, 0, 0] [1, 3] = Inr [1, 0]"
    by (simp_all add: take_items_def py_get_def)
  have s: "half_split [0::int, 1, 0, 0] = Inr ([0, 2], [1, 3])" by (simp add: half_split_def)
  have "half_split [0::int, 1, 0, 0] = Inr ([0, 2], [1, 3]) \<and>
        take_items [0::int, 1, 0, 0] [0, 2] = Inr [0, 0] \<and>
        take_items [0::int, 1, 0, 0] [1, 3] = Inr [1, 0] \<and>
        (length (remdups [0::int, 0]) < n_cols four_probas \<or>
         length (remdups [1::int, 0]) < n_cols four_probas)"
    using s tA tB by (simp add: four_probas_def)
  note c = absent_class_fails[where split=half_split and gt="[0, 1, 0, 0]" and A="[0, 2]"
      and B="[1, 3]" and yA="[0, 0]" and yB="[1, 0]" and P=four_probas and iso_fit=step_fit
      and iso_predict=step_predict and garbage="\<lambda>i j. None",
      THEN conjunct2, rule_format, OF this]
  show ?thesis
    by (intro conjI) (rule l f tA c)+
qed

text \<open>
  Claim C6 as stated fails: with the labels \<open>[0, 1, 0, 0]\<close> the half \<open>[0, 2]\<close> has no
  point of class 1, and both the fit on that half and the calibration of the array raise
  \<open>IndexError\<close>.
\<close>

theorem absent_class_counterexample:
  "fit step_fit \<lparr>n_cols = 2, cells = [[Some (6 / 10), Some (4 / 10)], [Some (2 / 10), Some (8 / 10)]]\<rparr>
      [0::int, 0] = Inl IndexError \<and>
   calibrate half_split step_fit step_predict (\<lambda>i j. None) four_probas [0::int, 1, 0, 0] =
     Inl IndexError"
  by (simp add: eval_cal)

section \<open>The cached model of a fold\<close>

lemma train_on_fold_clean:
  "train_on_fold hash_of train_model dump elapsed data path
      (dir\<lparr>model_files := (model_files dir)(hash_of (fst skf_is) := None)\<rparr>) skf_is =
   train_on_fold hash_of train_model dump elapsed data path dir skf_is"
  unfolding train_on_fold_def Let_def
  by (simp add: bind_err_def split: sum.splits)

text \<open>
  Claim C7, as the code has it. When the model file of the fold does not exist, or reading
  it raises \<open>IOError\<close>, \<open>test_on_fold\<close> retrains and goes on exactly as on the same
  directory without that file. When loading the file raises any other exception, that
  exception leaves \<open>test_on_fold\<close> and the fold fails. When the file loads, its model is
  used and nothing is trained.
\<close>

theorem test_on_fold_cache:
  fixes dir :: "('b, 'o) model_dir" and hash_of :: "int list \<Rightarrow> string"
    and skf_is :: "int list \<times> int list" and load :: "'b \<Rightarrow> error + 'm"
    and train_model :: "string \<Rightarrow> 'x list \<Rightarrow> 'y list \<Rightarrow> error + 'm"
    and dump :: "'m \<Rightarrow> error + 'b" and test_model :: "'m \<Rightarrow> 'x list \<Rightarrow> error + 'o"
    and elapsed :: rat and data :: "('x, 'y) data_sets" and path :: string
  defines "h \<equiv> hash_of (fst skf_is)"
  defines "run \<equiv> test_on_fold hash_of train_model dump load test_model elapsed data path"
  shows
    "(model_files dir h = None \<or> (\<exists>b. model_files dir h = Some b \<and> load b = Inl IOError) \<longrightarrow>
        run dir skf_is = run (dir\<lparr>model_files := (model_files dir)(h := None)\<rparr>) skf_is \<and>
        run dir skf_is =
          bind_err (train_on_fold hash_of train_model dump elapsed data path dir skf_is)
            (\<lambda>(dir', trained_model).
               bind_err (test_model trained_model (X_test data))
                 (\<lambda>out. Inr (dir'\<lparr>test_files := (test_files dir')(h \<mapsto> out)\<rparr>)))) \<and>
     (\<forall>b e. model_files dir h = Some b \<and> load b = Inl e \<and> e \<noteq> IOError \<longrightarrow>
        run dir skf_is = Inl e) \<and>
     (\<forall>b m. model_files dir h = Some b \<and> load b = Inr m \<longrightarrow>
        run dir skf_is =
          bind_err (test_model m (X_test data))
            (\<lambda>out. Inr (dir\<lparr>test_files := (test_files dir)(h \<mapsto> out)\<rparr>)))"
proof (intro conjI impI allI)
  assume a: "model_files dir h = None \<or> (\<exists>b. model_files dir h = Some b \<and> load b = Inl IOError)"
  have r: "run dir skf_is =
          bind_err (train_on_fold hash_of train_model dump elapsed data path dir skf_is)
            (\<lambda>(dir', trained_model).
               bind_err (test_model trained_model (X_test data))
                 (\<lambda>out. Inr (dir'\<lparr>test_files := (test_files dir')(h \<mapsto> out)\<rparr>)))"
    using a unfolding run_def test_on_fold_def Let_def h_def by auto
  have "run (dir\<lparr>model_files := (model_files dir)(h := None)\<rparr>) skf_is =
          bind_err (train_on_fold hash_of train_model dump elapsed data path dir skf_is)
            (\<lambda>(dir', trained_model).
               bind_err (test_model trained_model (X_test data))
                 (\<lambda>out. Inr (dir'\<lparr>test_files := (test_files dir')(h \<mapsto> out)\<rparr>)))"
    unfolding run_def test_on_fold_def Let_def h_def
    by (simp add: train_on_fold_clean)
  with r show "run dir skf_is = run (dir\<lparr>model_files := (model_files dir)(h := None)\<rparr>) skf_is"
    by simp
  from r show "run dir skf_is =
          bind_err (train_on_fold hash_of train_model dump elapsed data path dir skf_is)
            (\<lambda>(dir', trained_model).
               bind_err (test_model trained_model (X_test data))
                 (\<lambda>out. Inr (dir'\<lparr>test_files := (test_files dir')(h \<mapsto> out)\<rparr>)))" .
next
  fix b e assume "model_files dir h = Some b \<and> load b = Inl e \<and> e \<noteq> IOError"
  then show "run dir skf_is = Inl e"
    unfolding run_def test_on_fold_def Let_def h_def by (simp add: bind_err_def)
next
  fix b m assume "model_files dir h = Some b \<and> load b = Inr m"
  then show "run dir skf_is =
          bind_err (test_model m (X_test data))
            (\<lambda>out. Inr (dir\<lparr>test_files := (test_files dir)(h \<mapsto> out)\<rparr>))"
    unfolding run_def test_on_fold_def Let_def h_def by (simp add: bind_err_def)
qed

lemmas eval_fold = test_on_fold_def train_on_fold_def bind_err_def py_get_def Let_def
  toy_hash_def toy_train_def toy_dump_def toy_load_def toy_test_def toy_data_def toy_dir_def

text \<open>
  Claim C7 as stated fails: a model file whose contents do not unpickle makes
  \<open>test_on_fold\<close> raise the \<open>UnpicklingError\<close>, where the run without a model file
  returns the predictions \<open>[35, 36]\<close>.
\<close>

theorem test_on_fold_corrupted_cache:
  "test_on_fold toy_hash toy_train toy_dump toy_load toy_test 1 toy_data ''models/t/m''
      (toy_dir (Some None)) ([0, 1], [2]) = Inl UnpicklingError \<and>
   (\<exists>d. test_on_fold toy_hash toy_train toy_dump toy_load toy_test 1 toy_data ''models/t/m''
           (toy_dir None) ([0, 1], [2]) = Inr d \<and>
        test_files d ''01'' = Some [35, 36])"
  by (simp add: eval_fold)

theorem test_on_fold_cache_witness:
  "model_files (toy_dir None) (toy_hash [0, 1]) = None \<and>
   (\<exists>d. test_on_fold toy_hash toy_train toy_dump toy_load toy_test 1 toy_data ''models/t/m''
           (toy_dir None) ([0, 1], [2]) = Inr d \<and>
        test_files d ''01'' = Some [35, 36] \<and> model_files d ''01'' = Some (Some 30)) \<and>
   model_files (toy_dir (Some None)) (toy_hash [0, 1]) = Some None \<and>
   toy_load None = Inl UnpicklingError \<and>
   test_on_fold toy_hash toy_train toy_dump toy_load toy_test 1 toy_data ''models/t/m''
      (toy_dir (Some None)) ([0, 1], [2]) = Inl UnpicklingError \<and>
   model_files (toy_dir (Some (Some 7))) (toy_hash [0, 1]) = Some (Some 7) \<and>
   (\<exists>d. test_on_fold toy_hash toy_train toy_dump toy_load toy_test 1 toy_data ''models/t/m''
           (toy_dir (Some (Some 7))) ([0, 1], [2]) = Inr d \<and>
        test_files d ''01'' = Some [12, 13])"
proof -
  let ?run = "test_on_fold toy_hash toy_train toy_dump toy_load toy_test 1 toy_data ''models/t/m''"
  let ?f = "([0, 1], [2]) :: int list \<times> int list"
  note t = test_on_fold_cache[of _ toy_hash ?f toy_load toy_train toy_dump toy_test 1 toy_data
      "''models/t/m''"]
  have h: "toy_hash [0, 1] = ''01''" by (simp add: toy_hash_def)
  have a: "model_files (toy_dir None) (toy_hash [0, 1]) = None"
    by (simp add: toy_dir_def h)
  have b: "model_files (toy_dir (Some None)) (toy_hash [0, 1]) = Some None"
    by (simp add: toy_dir_def h)
  have c: "model_files (toy_dir (Some (Some 7))) (toy_hash [0, 1]) = Some (Some 7)"
    by (simp add: toy_dir_def h)
  have l: "toy_load None = Inl UnpicklingError" and l7: "toy_load (Some 7) = Inr 7"
    by (simp_all add: toy_load_def)
  have 1: "\<exists>d. ?run (toy_dir None) ?f = Inr d \<and>
        test_files d ''01'' = Some [35, 36] \<and> model_files d ''01'' = Some (Some 30)"
    using t[of "toy_dir None", THEN conjunct1, rule_format, THEN conjunct2] a
    by (simp add: eval_fold)
  have 2: "?run (toy_dir (Some None)) ?f = Inl UnpicklingError"
    by (rule t[of "toy_dir (Some None)", THEN conjunct2, THEN conjunct1, rule_format,
          where b=None])
       (use b l in simp)
  have 3: "\<exists>d. ?run (toy_dir (Some (Some 7))) ?f = Inr d \<and> test_files d ''01'' = Some [12, 13]"
    using t[of "toy_dir (Some (Some 7))", THEN conjunct2, THEN conjunct2, rule_format,
        where b="Some 7" and m=7] c l7
    by (simp add: bind_err_def toy_test_def toy_data_def h)
  show ?thesis
    by (intro conjI) (rule a 1 b l 2 c 3)+
qed


section \<open>The order of the leaderboards\<close>

lemmas eval_lb = leaderboard_classical_def get_scores_def mean_scores_of_def accuracy_def
  fold_truth_def fold_prediction_def bind_err_def Let_def upt_rec

lemma classical_example:
  "leaderboard_classical accuracy [0, 1] fold_truth fold_prediction [''best'', ''worst''] =
     Inr [(''worst'', Some (1 / 4)), (''best'', Some 1)]"
  by (simp add: eval_lb del: not_None_eq)

lemma contributivity_example:
  "contributivity_rows [''b'', ''a''] [([1, 1, 0], 1 :: rat, 1 :: rat), ([1], 1, 1)] =
     Inr [(''a'', 3), (''b'', 1)]"
  by (simp add: contributivity_rows_def histogram_def Let_def upt_rec)

lemma leaderboard_classical_ascending:
  fixes score :: "'l list \<Rightarrow> 'p \<Rightarrow> 's::{linorder,field}"
  assumes "leaderboard_classical score hash_strings ground_truth_of read index = Inr rows"
    and "hash_strings \<noteq> []"
  shows "sorted (map (\<lambda>r. the (snd r)) rows) \<and> length rows = length index \<and>
         (\<forall>r\<in>set rows. snd r \<noteq> None)"
proof (cases "length index = 0")
  case True
  with assms(1) show ?thesis
    by (auto simp: leaderboard_classical_def bind_err_def split: if_splits)
next
  case False
  with assms(1) obtain scores_list ms where
    sl: "map_err (get_scores score ground_truth_of read index) hash_strings = Inr scores_list"
    and ms: "mean_scores_of (length index) scores_list = Inr ms"
    and len: "length ms = length index"
    and rows: "rows = sort_key (\<lambda>r. the (snd r)) (filter (\<lambda>r. snd r \<noteq> None) (zip index ms))
                 @ filter (\<lambda>r. snd r = None) (zip index ms)"
    by (auto simp: leaderboard_classical_def bind_err_def Let_def split: if_splits sum.splits)
  from sl assms(2) have "scores_list \<noteq> []"
    by (cases hash_strings) (auto split: sum.splits)
  with ms have some: "\<forall>m\<in>set ms. m \<noteq> None"
    by (auto simp: mean_scores_of_def split: list.splits if_splits)
  then have z: "\<forall>r\<in>set (zip index ms). snd r \<noteq> None"
    by (metis set_zip_rightD prod.collapse)
  have all: "filter (\<lambda>r. snd r \<noteq> None) (zip index ms) = zip index ms"
    by (rule filter_True) (use z in blast)
  have none: "filter (\<lambda>r. snd r = None) (zip index ms) = []"
    unfolding filter_empty_conv using z by blast
  have r: "rows = sort_key (\<lambda>r. the (snd r)) (zip index ms)"
    using rows all none by simp
  have "sorted (map (\<lambda>r. the (snd r)) rows)" unfolding r by (rule sorted_sort_key)
  moreover have "length rows = length index" unfolding r using len by simp
  moreover have "\<forall>r\<in>set rows. snd r \<noteq> None"
    unfolding r using z by simp
  ultimately show ?thesis by blast
qed

lemma contributivity_rows_descending:
  assumes "contributivity_rows index list_of_tuples = Inr rows"
  shows "sorted (rev (map snd rows))"
proof -
  from assms obtain xs where "rows = rev (sort_key snd xs)"
    by (auto simp: contributivity_rows_def Let_def split: if_splits)
  then have "rev (map snd rows) = map snd (sort_key snd xs)" by (simp add: rev_map)
  then show ?thesis by (simp add: sorted_sort_key)
qed

lemma leaderboard_combination_descending:
  assumes "leaderboard_combination labels score split iso_fit iso_predict garbage
             hash_strings ground_truth_of read orig_models = Some (Inr rows)"
  shows "sorted (rev (map snd rows))"
  using assms
  by (auto simp: leaderboard_combination_def Let_def
      dest: contributivity_rows_descending
      split: if_splits option.splits sum.splits)

text \<open>
  Claim C8, at a concrete input. The model \<open>best\<close> has the mean accuracy 1 over the two
  folds, the model \<open>worst\<close> the mean accuracy 1/4: \<open>leaderboard_classical\<close> averages the
  scores of each model over the folds and returns the rows in ascending order, \<open>worst\<close>
  first and \<open>best\<close> last. The rows of \<open>leaderboard_combination\<close> count the occurrences of
  each model index over the folds and come in descending order of that count.
\<close>

theorem leaderboard_classical_worst_first:
  "leaderboard_classical accuracy [0, 1] fold_truth fold_prediction [''best'', ''worst''] =
     Inr [(''worst'', Some (1 / 4)), (''best'', Some 1)] \<and>
   (1 / 4 :: rat) < 1 \<and>
   contributivity_rows [''b'', ''a''] [([1, 1, 0], 1 :: rat, 1 :: rat), ([1], 1, 1)] =
     Inr [(''a'', 3), (''b'', 1)]"
  using classical_example contributivity_example by simp

end
